theory Spec2Isabelle
  imports Complex_Main
begin

section \<open>Data model of data_simulator.py\<close>

text \<open>
  Python floats are modelled as exact reals, Python ints as \<open>int\<close> or \<open>nat\<close>,
  strings as \<open>string\<close>, dictionaries as association lists (their iteration order
  is the insertion order) or maps. Every raise of the source is a value of \<open>error\<close>.
\<close>

datatype error = KeyError | ValueError | IndexError | OverflowError

definition ebind :: "error + 'a \<Rightarrow> ('a \<Rightarrow> error + 'b) \<Rightarrow> error + 'b" where
  "ebind m f = (case m of Inl e \<Rightarrow> Inl e | Inr x \<Rightarrow> f x)"

fun emap :: "('a \<Rightarrow> error + 'b) \<Rightarrow> 'a list \<Rightarrow> error + 'b list" where
  "emap f [] = Inr []"
| "emap f (x # xs) = ebind (f x) (\<lambda>y. ebind (emap f xs) (\<lambda>ys. Inr (y # ys)))"

text \<open>The dataclass \<open>MenuItem\<close> (lines 77-89).\<close>

record MenuItem =
  item_id :: string
  name :: string
  category :: string
  cuisine :: string
  is_veg :: bool
  price :: real
  meal_role :: string
  meal_times :: "string list"
  description :: string
  popularity_score :: real

text \<open>
  The dataclass \<open>UserProfile\<close> (lines 311-321). \<open>num_orders\<close> is a count; a negative
  value, which \<open>rng.choice\<close> would refuse, is outside the type.
\<close>

record UserProfile =
  user_id :: string
  city :: string
  segment :: string
  veg_preference :: real
  price_sensitivity :: real
  adventurousness :: real
  preferred_cuisines :: "string list"
  num_orders :: nat

text \<open>
  A \<open>datetime\<close>: the date as its proleptic Gregorian ordinal (\<open>date.toordinal()\<close>),
  and the time of day. \<open>weekday()\<close> is 0 on Monday; ordinal 1 is a Monday.
\<close>

record datetime =
  dt_ordinal :: int
  dt_hour :: nat
  dt_minute :: nat
  dt_second :: nat
  dt_microsecond :: nat

definition weekday :: "datetime \<Rightarrow> nat" where
  "weekday d = nat ((dt_ordinal d + 6) mod 7)"

definition add_days :: "datetime \<Rightarrow> int \<Rightarrow> error + datetime" where
  "add_days d n =
     (let o' = dt_ordinal d + n
      in if o' < 1 \<or> 3652059 < o' then Inl OverflowError else Inr (d\<lparr>dt_ordinal := o'\<rparr>))"

text \<open>One entry of \<open>MEAL_TEMPLATES\<close> (lines 249-292).\<close>

record MealTemplate =
  anchors :: "string list"
  complements :: "string list"
  addons :: "string list"
  finishers :: "string list"
  completion_prob :: "(string \<times> real) list"

definition MEAL_TEMPLATES :: "(string \<times> MealTemplate) list" where
  "MEAL_TEMPLATES =
    [(''biryani_meal'',
        \<lparr>anchors = [''ITEM_001'', ''ITEM_002'', ''ITEM_003'', ''ITEM_011''],
         complements = [''ITEM_033'', ''ITEM_034'', ''ITEM_035''],
         addons = [''ITEM_040'', ''ITEM_041'', ''ITEM_044''],
         finishers = [''ITEM_050'', ''ITEM_051'', ''ITEM_064'', ''ITEM_063''],
         completion_prob = [(''complement'', 0.65), (''addon'', 0.25), (''finisher'', 0.50)]\<rparr>),
     (''north_indian_curry'',
        \<lparr>anchors = [''ITEM_004'', ''ITEM_005'', ''ITEM_006'', ''ITEM_007''],
         complements = [''ITEM_030'', ''ITEM_031'', ''ITEM_032''],
         addons = [''ITEM_040'', ''ITEM_041'', ''ITEM_035'', ''ITEM_072''],
         finishers = [''ITEM_050'', ''ITEM_052'', ''ITEM_062'', ''ITEM_064''],
         completion_prob = [(''complement'', 0.80), (''addon'', 0.20), (''finisher'', 0.45)]\<rparr>),
     (''south_indian_breakfast'',
        \<lparr>anchors = [''ITEM_009'', ''ITEM_010'', ''ITEM_012'', ''ITEM_013''],
         complements = [''ITEM_038'', ''ITEM_039''],
         addons = [''ITEM_073''],
         finishers = [''ITEM_066'', ''ITEM_060''],
         completion_prob = [(''complement'', 0.70), (''addon'', 0.15), (''finisher'', 0.55)]\<rparr>),
     (''chinese_meal'',
        \<lparr>anchors = [''ITEM_014'', ''ITEM_015'', ''ITEM_016'', ''ITEM_017''],
         complements = [''ITEM_043'', ''ITEM_044''],
         addons = [''ITEM_037''],
         finishers = [''ITEM_064'', ''ITEM_061'', ''ITEM_053''],
         completion_prob = [(''complement'', 0.45), (''addon'', 0.30), (''finisher'', 0.40)]\<rparr>),
     (''street_food_snack'',
        \<lparr>anchors = [''ITEM_018'', ''ITEM_019'', ''ITEM_020'', ''ITEM_008''],
         complements = [],
         addons = [''ITEM_037'', ''ITEM_035''],
         finishers = [''ITEM_060'', ''ITEM_064'', ''ITEM_065''],
         completion_prob = [(''complement'', 0.10), (''addon'', 0.20), (''finisher'', 0.50)]\<rparr>),
     (''continental_meal'',
        \<lparr>anchors = [''ITEM_021'', ''ITEM_022'', ''ITEM_023''],
         complements = [''ITEM_037'', ''ITEM_036''],
         addons = [''ITEM_042'', ''ITEM_045''],
         finishers = [''ITEM_053'', ''ITEM_061'', ''ITEM_064''],
         completion_prob = [(''complement'', 0.55), (''addon'', 0.30), (''finisher'', 0.45)]\<rparr>)]"

text \<open>\<open>MEALTIME_TEMPLATE_WEIGHTS\<close> (lines 295-304).\<close>

definition MEALTIME_TEMPLATE_WEIGHTS :: "(string \<times> (string \<times> real) list) list" where
  "MEALTIME_TEMPLATE_WEIGHTS =
    [(''breakfast'',
        [(''south_indian_breakfast'', 0.5), (''street_food_snack'', 0.3), (''continental_meal'', 0.2)]),
     (''lunch'',
        [(''biryani_meal'', 0.25), (''north_indian_curry'', 0.30), (''chinese_meal'', 0.15),
         (''south_indian_breakfast'', 0.10), (''continental_meal'', 0.10), (''street_food_snack'', 0.10)]),
     (''snacks'',
        [(''street_food_snack'', 0.5), (''chinese_meal'', 0.2), (''continental_meal'', 0.2),
         (''south_indian_breakfast'', 0.1)]),
     (''dinner'',
        [(''biryani_meal'', 0.30), (''north_indian_curry'', 0.30), (''chinese_meal'', 0.20),
         (''continental_meal'', 0.15), (''street_food_snack'', 0.05)]),
     (''late_night'',
        [(''chinese_meal'', 0.35), (''continental_meal'', 0.35), (''street_food_snack'', 0.20),
         (''biryani_meal'', 0.10)])]"

text \<open>\<open>_get_meal_time\<close> (lines 423-434).\<close>

definition get_meal_time :: "int \<Rightarrow> string" where
  "get_meal_time h =
     (if 6 \<le> h \<and> h < 10 then ''breakfast''
      else if 10 \<le> h \<and> h < 15 then ''lunch''
      else if 15 \<le> h \<and> h < 18 then ''snacks''
      else if 18 \<le> h \<and> h < 22 then ''dinner''
      else ''late_night'')"

text \<open>
  The weight-table lookup of line 520:
  \<open>MEALTIME_TEMPLATE_WEIGHTS.get(meal_time, MEALTIME_TEMPLATE_WEIGHTS["lunch"])\<close>.
  The default is evaluated first, as Python evaluates arguments eagerly.
\<close>

definition template_weights_for :: "string \<Rightarrow> error + (string \<times> real) list" where
  "template_weights_for meal_time =
     (case map_of MEALTIME_TEMPLATE_WEIGHTS ''lunch'' of
        None \<Rightarrow> Inl KeyError
      | Some dflt \<Rightarrow>
          (case map_of MEALTIME_TEMPLATE_WEIGHTS meal_time of
             None \<Rightarrow> Inr dflt
           | Some w \<Rightarrow> Inr w))"

definition weights_fallback_taken :: "string \<Rightarrow> bool" where
  "weights_fallback_taken meal_time = (map_of MEALTIME_TEMPLATE_WEIGHTS meal_time = None)"

section \<open>The random generator and the Python runtime\<close>

text \<open>
  \<open>numpy.random.Generator\<close> is not code of this repository: its calls are parameters,
  each a function of the generator state \<open>'g\<close> that returns the drawn value and the
  next state. \<open>set_iter\<close> is the order in which CPython iterates a \<open>set\<close> of
  strings built from the given insertion sequence; it follows the strings' hashes, which
  are salted per process.
\<close>

record 'g runtime =
  rng_random :: "'g \<Rightarrow> real \<times> 'g"
  rng_normal :: "real \<Rightarrow> real \<Rightarrow> 'g \<Rightarrow> real \<times> 'g"
  rng_choice_range :: "int \<Rightarrow> nat \<Rightarrow> 'g \<Rightarrow> int list \<times> 'g"
  rng_choice_p :: "string list \<Rightarrow> real list \<Rightarrow> 'g \<Rightarrow> string \<times> 'g"
  rng_choice_noreplace :: "string list \<Rightarrow> nat \<Rightarrow> 'g \<Rightarrow> string list \<times> 'g"
  set_iter :: "string list \<Rightarrow> string list"

text \<open>
  What numpy and CPython document about these calls: \<open>random()\<close> lies in [0, 1);
  \<open>choice(n, size=k)\<close> returns k values of \<open>range(n)\<close>; \<open>choice(xs, p=ps)\<close>
  returns an element of xs; \<open>choice(xs, size=k, replace=False)\<close> returns k elements
  at distinct positions of xs; iterating a set yields each element once.
\<close>

definition rng_contract :: "'g runtime \<Rightarrow> bool" where
  "rng_contract env =
     ((\<forall>g. 0 \<le> fst (rng_random env g) \<and> fst (rng_random env g) < 1)
      \<and> (\<forall>n k g. length (fst (rng_choice_range env n k g)) = k
             \<and> (0 < n \<longrightarrow> (\<forall>d \<in> set (fst (rng_choice_range env n k g)). 0 \<le> d \<and> d < n)))
      \<and> (\<forall>xs ps g. xs \<noteq> [] \<longrightarrow> fst (rng_choice_p env xs ps g) \<in> set xs)
      \<and> (\<forall>xs k g. distinct xs \<and> k \<le> length xs \<longrightarrow>
             length (fst (rng_choice_noreplace env xs k g)) = k
             \<and> distinct (fst (rng_choice_noreplace env xs k g))
             \<and> set (fst (rng_choice_noreplace env xs k g)) \<subseteq> set xs))"

definition set_iter_contract :: "'g runtime \<Rightarrow> bool" where
  "set_iter_contract env = (\<forall>xs. set (set_iter env xs) = set xs \<and> distinct (set_iter env xs))"

text \<open>
  The argument checks numpy makes before it draws (each raises \<open>ValueError\<close>).
  \<open>choice(n, size=k)\<close> draws its k indices as 64-bit integers below n: when a sample
  is taken it refuses an n that is not positive and an n above 2^63.
\<close>

definition np_choice_range :: "'g runtime \<Rightarrow> int \<Rightarrow> nat \<Rightarrow> 'g \<Rightarrow> error + (int list \<times> 'g)" where
  "np_choice_range env n k g =
     (if (n \<le> 0 \<or> 2 ^ 63 < n) \<and> k \<noteq> 0 then Inl ValueError
      else Inr (rng_choice_range env n k g))"

definition np_choice_p :: "'g runtime \<Rightarrow> string list \<Rightarrow> real list \<Rightarrow> 'g \<Rightarrow> error + (string \<times> 'g)" where
  "np_choice_p env xs ps g =
     (if xs = [] \<or> length ps \<noteq> length xs \<or> list_ex (\<lambda>p. p < 0) ps \<or> sum_list ps \<noteq> 1
      then Inl ValueError
      else Inr (rng_choice_p env xs ps g))"

definition np_choice_noreplace ::
  "'g runtime \<Rightarrow> string list \<Rightarrow> int \<Rightarrow> 'g \<Rightarrow> error + (string list \<times> 'g)" where
  "np_choice_noreplace env xs k g =
     (if k < 0 \<or> int (length xs) < k then Inl ValueError
      else Inr (rng_choice_noreplace env xs (nat k) g))"

text \<open>
  \<open>probs /= probs.sum()\<close>: numpy divides by a zero sum without raising and leaves
  NaN or infinities, which the \<open>rng.choice\<close> that follows refuses with \<open>ValueError\<close>;
  the two steps are adjacent, so the error is raised here.
\<close>

definition normalize_probs :: "real list \<Rightarrow> error + real list" where
  "normalize_probs ps =
     (if sum_list ps = 0 then Inl ValueError else Inr (map (\<lambda>p. p / sum_list ps) ps))"

text \<open>Python's \<open>round(x, nd)\<close>, on exact reals: to the nearest, ties to even.\<close>

definition py_round :: "real \<Rightarrow> nat \<Rightarrow> real" where
  "py_round x nd =
     (let y = x * 10 ^ nd; f = \<lfloor>y\<rfloor>; r = y - of_int f
      in of_int (if r < 1 / 2 then f else if 1 / 2 < r then f + 1
                 else if even f then f else f + 1) / 10 ^ nd)"

text \<open>\<open>f"S{session_counter:07d}"\<close> (line 514).\<close>

fun digits_of :: "nat \<Rightarrow> string" where
  "digits_of n =
     (if n < 10 then [char_of (48 + n)] else digits_of (n div 10) @ [char_of (48 + n mod 10)])"

definition format_session_id :: "nat \<Rightarrow> string" where
  "format_session_id n =
     CHR ''S'' # replicate (7 - length (digits_of n)) CHR ''0'' @ digits_of n"

section \<open>Session timestamps\<close>

text \<open>\<open>_sample_timestamp\<close> (lines 437-471).\<close>

definition sample_timestamp :: "'g runtime \<Rightarrow> 'g \<Rightarrow> datetime \<Rightarrow> datetime \<times> 'g" where
  "sample_timestamp env g base_date =
     (let (peak_choice, g1) = rng_random env g;
          (h0, g2) =
            (if peak_choice < 0.35 then rng_normal env 12.5 1.2 g1
             else if peak_choice < 0.70 then rng_normal env 19.5 1.5 g1
             else if peak_choice < 0.82 then rng_normal env 8.0 0.8 g1
             else if peak_choice < 0.92 then rng_normal env 16.0 0.8 g1
             else rng_normal env 23.0 1.0 g1);
          h = min (max h0 0) 23.99;
          minutes = nat \<lfloor>frac h * 60\<rfloor>
      in (base_date\<lparr>dt_hour := nat \<lfloor>h\<rfloor>, dt_minute := minutes, dt_second := 0\<rparr>, g2))"

section \<open>Catalog lookups\<close>

text \<open>
  \<open>item_lookup = {item.item_id: item for item in catalog}\<close> (line 502): a later item
  replaces an earlier one with the same id, and the keys keep the order of first insertion.
\<close>

definition item_lookup_of :: "MenuItem list \<Rightarrow> string \<Rightarrow> MenuItem option" where
  "item_lookup_of catalog = map_of (rev (map (\<lambda>it. (item_id it, it)) catalog))"

definition all_item_ids_of :: "MenuItem list \<Rightarrow> string list" where
  "all_item_ids_of catalog = rev (remdups (rev (map item_id catalog)))"

definition get_item :: "(string \<Rightarrow> MenuItem option) \<Rightarrow> string \<Rightarrow> error + MenuItem" where
  "get_item item_lookup iid = (case item_lookup iid of None \<Rightarrow> Inl KeyError | Some it \<Rightarrow> Inr it)"

definition get_template :: "string \<Rightarrow> error + MealTemplate" where
  "get_template tname = (case map_of MEAL_TEMPLATES tname of None \<Rightarrow> Inl KeyError | Some t \<Rightarrow> Inr t)"

section \<open>Template selection (lines 519-534)\<close>

definition cuisine_overlap :: "(string \<Rightarrow> MenuItem option) \<Rightarrow> UserProfile \<Rightarrow> MealTemplate \<Rightarrow> nat" where
  "cuisine_overlap item_lookup user t =
     card (set (map cuisine (List.map_filter item_lookup (anchors t)))
           \<inter> set (preferred_cuisines user))"

definition adjusted_weight ::
  "(string \<Rightarrow> MenuItem option) \<Rightarrow> UserProfile \<Rightarrow> string \<times> real \<Rightarrow> error + real" where
  "adjusted_weight item_lookup user tw =
     ebind (get_template (fst tw))
       (\<lambda>t. Inr (snd tw * (1.0 + 0.3 * real (cuisine_overlap item_lookup user t))))"

definition choose_template ::
  "'g runtime \<Rightarrow> (string \<Rightarrow> MenuItem option) \<Rightarrow> UserProfile \<Rightarrow> string \<Rightarrow> 'g
   \<Rightarrow> error + ((string \<times> MealTemplate) \<times> 'g)" where
  "choose_template env item_lookup user meal_time g =
     ebind (template_weights_for meal_time) (\<lambda>template_weights.
     let template_names = map fst template_weights in
     ebind (emap (adjusted_weight item_lookup user) template_weights) (\<lambda>template_probs0.
     ebind (normalize_probs template_probs0) (\<lambda>template_probs.
     ebind (np_choice_p env template_names template_probs g) (\<lambda>(chosen_template_name, g1).
     ebind (get_template chosen_template_name) (\<lambda>template.
     Inr ((chosen_template_name, template), g1))))))"

section \<open>Anchor selection (lines 537-557)\<close>

definition veg_match :: "MenuItem \<Rightarrow> UserProfile \<Rightarrow> real" where
  "veg_match it user =
     (if (is_veg it \<and> veg_preference user > 0.5) \<or> (\<not> is_veg it \<and> veg_preference user \<le> 0.5)
      then 1.0 else 0.3)"

definition price_match :: "MenuItem \<Rightarrow> UserProfile \<Rightarrow> real" where
  "price_match it user = max 0.1 (1.0 - price_sensitivity user * (price it / 400.0))"

definition anchor_score :: "MenuItem \<Rightarrow> UserProfile \<Rightarrow> real" where
  "anchor_score it user = veg_match it user * price_match it user * popularity_score it"

definition scored_anchors ::
  "(string \<Rightarrow> MenuItem option) \<Rightarrow> UserProfile \<Rightarrow> string list \<Rightarrow> error + (string \<times> real) list" where
  "scored_anchors item_lookup user valid_anchors =
     emap (\<lambda>aid. ebind (get_item item_lookup aid) (\<lambda>it. Inr (aid, anchor_score it user)))
       valid_anchors"

definition valid_anchors_of :: "(string \<Rightarrow> MenuItem option) \<Rightarrow> MealTemplate \<Rightarrow> string list" where
  "valid_anchors_of item_lookup t = filter (\<lambda>aid. item_lookup aid \<noteq> None) (anchors t)"

text \<open>
  Lines 545-557, entered with a non-empty \<open>valid_anchors\<close>: the result is the cart
  after \<open>cart.append(anchor_id)\<close>.
\<close>

definition select_anchor ::
  "'g runtime \<Rightarrow> (string \<Rightarrow> MenuItem option) \<Rightarrow> UserProfile \<Rightarrow> string list \<Rightarrow> 'g
   \<Rightarrow> error + (string list \<times> 'g)" where
  "select_anchor env item_lookup user valid_anchors g =
     ebind (scored_anchors item_lookup user valid_anchors) (\<lambda>scored.
     let anchor_ids = map fst scored; anchor_scores = map snd scored in
     ebind (normalize_probs anchor_scores) (\<lambda>anchor_probs.
     ebind (np_choice_p env anchor_ids anchor_probs g) (\<lambda>(anchor_id, g1).
     Inr ([] @ [anchor_id], g1))))"

section \<open>Acceptance probabilities (lines 568-576 and 593-614)\<close>

text \<open>
  \<open>template.get(f"{role}s", template.get(role, []))\<close> (line 564); the loop passes
  the roles complement, addon and finisher only.
\<close>

definition role_items_of :: "MealTemplate \<Rightarrow> string \<Rightarrow> string list" where
  "role_items_of t role =
     (if role = ''anchor'' then anchors t
      else if role = ''complement'' then complements t
      else if role = ''addon'' then addons t
      else if role = ''finisher'' then finishers t
      else [])"

definition base_accept_prob_of :: "MealTemplate \<Rightarrow> string \<Rightarrow> real" where
  "base_accept_prob_of t role =
     (case map_of (completion_prob t) role of None \<Rightarrow> 0.3 | Some p \<Rightarrow> p)"

definition segment_multiplier :: "string \<Rightarrow> error + real" where
  "segment_multiplier seg =
     (case map_of [(''new'', 0.7), (''regular'', 1.0), (''power'', 1.3)] seg of
        None \<Rightarrow> Inl KeyError
      | Some m \<Rightarrow> Inr m)"

definition role_accept_prob :: "MealTemplate \<Rightarrow> UserProfile \<Rightarrow> datetime \<Rightarrow> string \<Rightarrow> error + real" where
  "role_accept_prob t user ts role =
     (let base_accept_prob = base_accept_prob_of t role in
      ebind (segment_multiplier (segment user)) (\<lambda>m.
      let accept_prob = min 0.95 (base_accept_prob * m)
      in Inr (if weekday ts \<ge> 5 then min 0.95 (accept_prob * 1.15) else accept_prob)))"

definition candidate_accept ::
  "real \<Rightarrow> string \<Rightarrow> string list \<Rightarrow> MenuItem \<Rightarrow> UserProfile \<Rightarrow> string \<Rightarrow> real" where
  "candidate_accept accept_prob cand_id noise_candidates cand_item user meal_time =
     (let p0 = accept_prob;
          p1 = (if cand_id \<in> set noise_candidates then p0 * 0.08 else p0);
          p2 = (if is_veg cand_item \<and> veg_preference user < 0.3 then p1 * 0.6
                else if \<not> is_veg cand_item \<and> veg_preference user > 0.7 then p1 * 0.05
                else p1);
          p3 = (if price cand_item > 200 \<and> price_sensitivity user > 0.7 then p2 * 0.4 else p2);
          p4 = (if meal_time \<notin> set (meal_times cand_item) then p3 * 0.15 else p3)
      in p4)"

section \<open>Events (lines 616-652)\<close>

text \<open>The event dictionary; its keys carry the prefix \<open>ev_\<close> here.\<close>

record Event =
  ev_session_id :: string
  ev_user_id :: string
  ev_city :: string
  ev_user_segment :: string
  ev_user_veg_preference :: real
  ev_user_price_sensitivity :: real
  ev_timestamp :: datetime
  ev_meal_time :: string
  ev_day_of_week :: nat
  ev_hour_of_day :: nat
  ev_is_weekend :: nat
  ev_cart_items :: "string list"
  ev_cart_item_count :: nat
  ev_cart_total_price :: real
  ev_cart_veg_ratio :: real
  ev_last_item_added :: string
  ev_last_item_category :: string
  ev_last_item_cuisine :: string
  ev_cart_categories :: "string list"
  ev_cart_cuisines :: "string list"
  ev_candidate_item_id :: string
  ev_candidate_category :: string
  ev_candidate_cuisine :: string
  ev_candidate_price :: real
  ev_candidate_is_veg :: nat
  ev_candidate_meal_role :: string
  ev_candidate_popularity :: real
  ev_candidate_accepted :: nat
  ev_meal_template :: string
  ev_is_abandoned :: nat

text \<open>What is fixed for one session once its anchor is chosen.\<close>

record session_ctx =
  sc_item_lookup :: "string \<Rightarrow> MenuItem option"
  sc_all_item_ids :: "string list"
  sc_user :: UserProfile
  sc_session_id :: string
  sc_timestamp :: datetime
  sc_meal_time :: string
  sc_template_name :: string
  sc_template :: MealTemplate
  sc_is_abandoned :: bool

definition make_event ::
  "'g runtime \<Rightarrow> session_ctx \<Rightarrow> string list \<Rightarrow> string \<Rightarrow> MenuItem \<Rightarrow> nat \<Rightarrow> error + Event" where
  "make_event env sc cart cand_id cand_item accepted =
     ebind (emap (get_item (sc_item_lookup sc)) cart) (\<lambda>cart_things.
     if cart = [] then Inl IndexError
     else
       let cart_prices = sum_list (map price cart_things);
           cart_veg_count = length (filter is_veg cart_things);
           user = sc_user sc;
           ts = sc_timestamp sc
       in Inr \<lparr>ev_session_id = sc_session_id sc,
                ev_user_id = user_id user,
                ev_city = city user,
                ev_user_segment = segment user,
                ev_user_veg_preference = py_round (veg_preference user) 3,
                ev_user_price_sensitivity = py_round (price_sensitivity user) 3,
                ev_timestamp = ts,
                ev_meal_time = sc_meal_time sc,
                ev_day_of_week = weekday ts,
                ev_hour_of_day = dt_hour ts,
                ev_is_weekend = (if weekday ts \<ge> 5 then 1 else 0),
                ev_cart_items = cart,
                ev_cart_item_count = length cart,
                ev_cart_total_price = cart_prices,
                ev_cart_veg_ratio = py_round (real cart_veg_count / real (length cart)) 2,
                ev_last_item_added = last cart,
                ev_last_item_category = category (last cart_things),
                ev_last_item_cuisine = cuisine (last cart_things),
                ev_cart_categories = set_iter env (map category cart_things),
                ev_cart_cuisines = set_iter env (map cuisine cart_things),
                ev_candidate_item_id = cand_id,
                ev_candidate_category = category cand_item,
                ev_candidate_cuisine = cuisine cand_item,
                ev_candidate_price = price cand_item,
                ev_candidate_is_veg = (if is_veg cand_item then 1 else 0),
                ev_candidate_meal_role = meal_role cand_item,
                ev_candidate_popularity = popularity_score cand_item,
                ev_candidate_accepted = accepted,
                ev_meal_template = sc_template_name sc,
                ev_is_abandoned = (if sc_is_abandoned sc then 1 else 0)\<rparr>)"

section \<open>The cart builder (lines 563-656)\<close>

text \<open>
  One iteration of the candidate loop (lines 590-656). The state is the global event
  list, the cart and the generator.
\<close>

definition candidate_step ::
  "'g runtime \<Rightarrow> session_ctx \<Rightarrow> real \<Rightarrow> string list \<Rightarrow> string
   \<Rightarrow> Event list \<times> string list \<times> 'g \<Rightarrow> error + (Event list \<times> string list \<times> 'g)" where
  "candidate_step env sc accept_prob noise_candidates cand_id st =
     (case st of (events, cart, g) \<Rightarrow>
      ebind (get_item (sc_item_lookup sc) cand_id) (\<lambda>cand_item.
      let cand_accept = candidate_accept accept_prob cand_id noise_candidates cand_item
                          (sc_user sc) (sc_meal_time sc);
          (u, g1) = rng_random env g;
          accepted = (if u < cand_accept then 1 else 0)
      in ebind (make_event env sc cart cand_id cand_item accepted) (\<lambda>event.
         Inr (events @ [event], (if accepted = 1 then cart @ [cand_id] else cart), g1))))"

fun run_candidates ::
  "'g runtime \<Rightarrow> session_ctx \<Rightarrow> real \<Rightarrow> string list \<Rightarrow> string list
   \<Rightarrow> Event list \<times> string list \<times> 'g \<Rightarrow> error + (Event list \<times> string list \<times> 'g)" where
  "run_candidates env sc accept_prob noise_candidates [] st = Inr st"
| "run_candidates env sc accept_prob noise_candidates (cand_id # rest) st =
     ebind (candidate_step env sc accept_prob noise_candidates cand_id st)
       (run_candidates env sc accept_prob noise_candidates rest)"

definition valid_candidates_of :: "session_ctx \<Rightarrow> string list \<Rightarrow> string list \<Rightarrow> string list" where
  "valid_candidates_of sc role_items cart =
     filter (\<lambda>cid. sc_item_lookup sc cid \<noteq> None \<and> cid \<notin> set cart) role_items"

definition noise_pool_of :: "session_ctx \<Rightarrow> string list \<Rightarrow> string list \<Rightarrow> string list" where
  "noise_pool_of sc cart valid_candidates =
     filter (\<lambda>iid. iid \<notin> set cart \<and> iid \<notin> set valid_candidates) (sc_all_item_ids sc)"

definition noise_size_of :: "session_ctx \<Rightarrow> string list \<Rightarrow> string list \<Rightarrow> int" where
  "noise_size_of sc cart valid_candidates =
     min 3 (int (length (sc_all_item_ids sc)) - int (length cart) - int (length valid_candidates))"

text \<open>The body of the role loop for one role (lines 564-656).\<close>

definition run_role ::
  "'g runtime \<Rightarrow> session_ctx \<Rightarrow> string
   \<Rightarrow> Event list \<times> string list \<times> 'g \<Rightarrow> error + (Event list \<times> string list \<times> 'g)" where
  "run_role env sc role st =
     (case st of (events, cart, g) \<Rightarrow>
      let role_items = role_items_of (sc_template sc) role in
      if role_items = [] then Inr st
      else
        ebind (role_accept_prob (sc_template sc) (sc_user sc) (sc_timestamp sc) role) (\<lambda>accept_prob.
        let valid_candidates = valid_candidates_of sc role_items cart in
        ebind (np_choice_noreplace env (noise_pool_of sc cart valid_candidates)
                 (noise_size_of sc cart valid_candidates) g) (\<lambda>(noise_candidates, g1).
        let all_candidates = valid_candidates @ noise_candidates
        in run_candidates env sc accept_prob noise_candidates all_candidates (events, cart, g1))))"

fun run_roles ::
  "'g runtime \<Rightarrow> session_ctx \<Rightarrow> string list
   \<Rightarrow> Event list \<times> string list \<times> 'g \<Rightarrow> error + (Event list \<times> string list \<times> 'g)" where
  "run_roles env sc [] st = Inr st"
| "run_roles env sc (role # roles) st = ebind (run_role env sc role st) (run_roles env sc roles)"

section \<open>Sessions (lines 508-664)\<close>

text \<open>Lines 658-661: \<open>rng.random()\<close> is drawn first, then the length is tested.\<close>

definition mark_last_abandoned :: "Event list \<Rightarrow> Event list" where
  "mark_last_abandoned events =
     events[length events - 1 := (events ! (length events - 1))\<lparr>ev_is_abandoned := 1\<rparr>]"

definition finish_session :: "'g runtime \<Rightarrow> Event list \<times> 'g \<Rightarrow> Event list \<times> 'g" where
  "finish_session env st =
     (case st of (events, g) \<Rightarrow>
      let (v, g1) = rng_random env g
      in if v < 0.05 \<and> length events > 0 then (mark_last_abandoned events, g1) else (events, g1))"

text \<open>
  One iteration of the order loop (lines 513-661); \<open>session_counter\<close> is the counter
  after its increment. A session without valid anchors returns the events and the
  generator as they are after the template draw (the \<open>continue\<close> of line 542).
\<close>

definition run_session ::
  "'g runtime \<Rightarrow> (string \<Rightarrow> MenuItem option) \<Rightarrow> string list \<Rightarrow> UserProfile \<Rightarrow> datetime
   \<Rightarrow> nat \<Rightarrow> int \<Rightarrow> Event list \<times> 'g \<Rightarrow> error + (Event list \<times> 'g)" where
  "run_session env item_lookup all_item_ids user start_date session_counter day_offset st =
     (case st of (events, g) \<Rightarrow>
      let session_id = format_session_id session_counter in
      ebind (add_days start_date day_offset) (\<lambda>base_date.
      let (ts, g1) = sample_timestamp env g base_date;
          meal_time = get_meal_time (int (dt_hour ts)) in
      ebind (choose_template env item_lookup user meal_time g1) (\<lambda>((chosen_template_name, template), g2).
      let valid_anchors = valid_anchors_of item_lookup template in
      if valid_anchors = [] then Inr (events, g2)
      else
        ebind (select_anchor env item_lookup user valid_anchors g2) (\<lambda>(cart, g3).
        let (a, g4) = rng_random env g3;
            is_abandoned = (a < 0.08);
            sc = \<lparr>sc_item_lookup = item_lookup, sc_all_item_ids = all_item_ids, sc_user = user,
                  sc_session_id = session_id, sc_timestamp = ts, sc_meal_time = meal_time,
                  sc_template_name = chosen_template_name, sc_template = template,
                  sc_is_abandoned = is_abandoned\<rparr>
        in ebind (run_roles env sc [''complement'', ''addon'', ''finisher''] (events, cart, g4))
             (\<lambda>(events1, cart1, g5). Inr (finish_session env (events1, g5)))))))"

fun run_orders ::
  "'g runtime \<Rightarrow> (string \<Rightarrow> MenuItem option) \<Rightarrow> string list \<Rightarrow> UserProfile \<Rightarrow> datetime
   \<Rightarrow> int list \<Rightarrow> Event list \<times> nat \<times> 'g \<Rightarrow> error + (Event list \<times> nat \<times> 'g)" where
  "run_orders env item_lookup all_item_ids user start_date [] st = Inr st"
| "run_orders env item_lookup all_item_ids user start_date (day_offset # rest) st =
     (case st of (events, session_counter, g) \<Rightarrow>
      ebind (run_session env item_lookup all_item_ids user start_date (session_counter + 1)
               day_offset (events, g))
        (\<lambda>(events1, g1).
           run_orders env item_lookup all_item_ids user start_date rest
             (events1, session_counter + 1, g1)))"

fun run_users ::
  "'g runtime \<Rightarrow> (string \<Rightarrow> MenuItem option) \<Rightarrow> string list \<Rightarrow> int \<Rightarrow> datetime
   \<Rightarrow> UserProfile list \<Rightarrow> Event list \<times> nat \<times> 'g \<Rightarrow> error + (Event list \<times> nat \<times> 'g)" where
  "run_users env item_lookup all_item_ids n_days start_date [] st = Inr st"
| "run_users env item_lookup all_item_ids n_days start_date (user # rest) st =
     (case st of (events, session_counter, g) \<Rightarrow>
      ebind (np_choice_range env n_days (num_orders user) g) (\<lambda>(days, g1).
      ebind (run_orders env item_lookup all_item_ids user start_date (sort days)
               (events, session_counter, g1))
        (run_users env item_lookup all_item_ids n_days start_date rest)))"

text \<open>
  \<open>generate_sessions\<close> (lines 474-664). The result is the event list the data frame is
  built from; \<open>g\<close> is the state of the generator passed in (or of
  \<open>default_rng(RANDOM_SEED)\<close> when none is passed).
\<close>

definition generate_sessions ::
  "'g runtime \<Rightarrow> UserProfile list \<Rightarrow> MenuItem list \<Rightarrow> int \<Rightarrow> datetime \<Rightarrow> 'g \<Rightarrow> error + Event list" where
  "generate_sessions env users catalog n_days start_date g =
     ebind (run_users env (item_lookup_of catalog) (all_item_ids_of catalog) n_days start_date
              users ([], 0, g))
       (\<lambda>(events, session_counter, g1). Inr events)"

section \<open>The specification's formulas\<close>

text \<open>
  These three definitions follow the words of the specification, not the code; the
  theorems below compare them with the definitions translated from the source.
\<close>

text \<open>Section 4.4: the five multiplicative modifiers, in the order given.\<close>

definition spec_candidate_prob :: "real \<Rightarrow> bool \<Rightarrow> MenuItem \<Rightarrow> UserProfile \<Rightarrow> string \<Rightarrow> real" where
  "spec_candidate_prob accept_prob from_noise cand user meal_time =
     accept_prob
       * (if from_noise then 0.08 else 1)
       * (if is_veg cand \<and> veg_preference user < 0.3 then 0.6 else 1)
       * (if \<not> is_veg cand \<and> veg_preference user > 0.7 then 0.05 else 1)
       * (if price cand > 200 \<and> price_sensitivity user > 0.7 then 0.4 else 1)
       * (if meal_time \<notin> set (meal_times cand) then 0.15 else 1)"

text \<open>
  Section 4.3: the completion probability, scaled by the segment multiplier, then by
  1.15 on a weekend, clamped to at most 0.95.
\<close>

definition spec_segment_multiplier :: "string \<Rightarrow> real" where
  "spec_segment_multiplier seg =
     (if seg = ''new'' then 0.7 else if seg = ''regular'' then 1.0 else 1.3)"

definition spec_role_prob :: "real \<Rightarrow> string \<Rightarrow> bool \<Rightarrow> real" where
  "spec_role_prob completion seg weekend =
     min 0.95 (completion * spec_segment_multiplier seg * (if weekend then 1.15 else 1))"


section \<open>Concrete inputs\<close>

text \<open>
  A generator that replays a tape of naturals, one per call, and satisfies the contract
  above; its set iteration order is a parameter. It runs the model on the inputs below.
\<close>

definition tape_next :: "nat list \<Rightarrow> nat \<times> nat list" where
  "tape_next g = (case g of [] \<Rightarrow> (0, []) | n # r \<Rightarrow> (n, r))"

definition tape_runtime :: "(string list \<Rightarrow> string list) \<Rightarrow> nat list runtime" where
  "tape_runtime order =
     \<lparr>rng_random = (\<lambda>g. (real (fst (tape_next g) mod 100) / 100, snd (tape_next g))),
      rng_normal = (\<lambda>mu sigma g.
         (mu + sigma * (real (fst (tape_next g) mod 5) - 2) / 2, snd (tape_next g))),
      rng_choice_range = (\<lambda>n k g.
         (map (\<lambda>i. (int (fst (tape_next g)) + int i) mod n) [0..<k], snd (tape_next g))),
      rng_choice_p = (\<lambda>xs ps g. (xs ! (fst (tape_next g) mod length xs), snd (tape_next g))),
      rng_choice_noreplace = (\<lambda>xs k g. (take k (rotate (fst (tape_next g)) xs), snd (tape_next g))),
      set_iter = order\<rparr>"

text \<open>Four items of \<open>build_menu_catalog\<close> (lines 107, 169, 181 and 195).\<close>

definition ITEM_003 :: MenuItem where
  "ITEM_003 =
     \<lparr>item_id = ''ITEM_003'', name = ''Veg Biryani'', category = ''Main'', cuisine = ''Mughlai'',
      is_veg = True, price = 229, meal_role = ''anchor'', meal_times = [''lunch'', ''dinner''],
      description = ''Mixed vegetable biryani with paneer and aromatic spices'',
      popularity_score = 0.55\<rparr>"

definition ITEM_035 :: MenuItem where
  "ITEM_035 =
     \<lparr>item_id = ''ITEM_035'', name = ''Papad'', category = ''Side'', cuisine = ''North Indian'',
      is_veg = True, price = 25, meal_role = ''addon'', meal_times = [''lunch'', ''dinner''],
      description = ''Crispy lentil wafer, roasted or fried'', popularity_score = 0.6\<rparr>"

definition ITEM_040 :: MenuItem where
  "ITEM_040 =
     \<lparr>item_id = ''ITEM_040'', name = ''Chicken Tikka'', category = ''Starter'',
      cuisine = ''North Indian'', is_veg = False, price = 199, meal_role = ''addon'',
      meal_times = [''lunch'', ''dinner''],
      description = ''Smoky chargrilled chicken marinated in yogurt and spices'',
      popularity_score = 0.55\<rparr>"

definition ITEM_050 :: MenuItem where
  "ITEM_050 =
     \<lparr>item_id = ''ITEM_050'', name = ''Gulab Jamun'', category = ''Dessert'',
      cuisine = ''North Indian'', is_veg = True, price = 89, meal_role = ''finisher'',
      meal_times = [''lunch'', ''dinner''],
      description = ''Soft milk-solid dumplings soaked in rose-cardamom syrup'',
      popularity_score = 0.65\<rparr>"

definition small_catalog :: "MenuItem list" where
  "small_catalog = [ITEM_003, ITEM_035, ITEM_050]"

definition catalog_4 :: "MenuItem list" where
  "catalog_4 = [ITEM_003, ITEM_035, ITEM_040, ITEM_050]"

definition user_1 :: UserProfile where
  "user_1 =
     \<lparr>user_id = ''U00001'', city = ''Mumbai'', segment = ''regular'', veg_preference = 0.6,
      price_sensitivity = 0.2, adventurousness = 0.3, preferred_cuisines = [''Mughlai''],
      num_orders = 1\<rparr>"

definition user_2 :: UserProfile where
  "user_2 = user_1\<lparr>user_id := ''U00002''\<rparr>"

text \<open>\<open>datetime(2025, 1, 1)\<close>, the default \<open>start_date\<close>.\<close>

definition start_2025 :: datetime where
  "start_2025 =
     \<lparr>dt_ordinal = 739252, dt_hour = 0, dt_minute = 0, dt_second = 0, dt_microsecond = 0\<rparr>"

definition tape_1 :: "nat list" where
  "tape_1 = [3, 10, 2, 0, 0, 50, 0, 10, 90, 90, 90, 0, 90, 90]"

text \<open>A tape for a second session, whose last draw (0.03) is that of line 660.\<close>

definition tape_2 :: "nat list" where
  "tape_2 = [10, 2, 0, 0, 50, 0, 10, 90, 90, 90, 0, 90, 3]"



text \<open>The context of the session that \<open>tape_1\<close> produces for \<open>user_1\<close>.\<close>

definition ctx_1 :: session_ctx where
  "ctx_1 =
     \<lparr>sc_item_lookup = item_lookup_of small_catalog,
      sc_all_item_ids = all_item_ids_of small_catalog,
      sc_user = user_1,
      sc_session_id = ''S0000001'',
      sc_timestamp = start_2025\<lparr>dt_ordinal := 739255, dt_hour := 12, dt_minute := 30\<rparr>,
      sc_meal_time = ''lunch'',
      sc_template_name = ''biryani_meal'',
      sc_template = the (map_of MEAL_TEMPLATES ''biryani_meal''),
      sc_is_abandoned = False\<rparr>"

definition events_1 :: "Event list" where
  "events_1 =
     projr (generate_sessions (tape_runtime remdups) [user_1] small_catalog 30 start_2025 tape_1)"

section \<open>Auxiliary notions for the proofs\<close>

text \<open>The two clamps of lines 572 and 576 as one function of the unclamped product.\<close>

definition clamp_weekend :: "real \<Rightarrow> bool \<Rightarrow> real" where
  "clamp_weekend x weekend =
     (let a = min 0.95 x in if weekend then min 0.95 (a * 1.15) else a)"

text \<open>Appending the events a step emits to the events emitted before it.\<close>

definition emit_onto :: "Event list \<Rightarrow> error + (Event list \<times> 'c) \<Rightarrow> error + (Event list \<times> 'c)" where
  "emit_onto events r =
     (case r of Inl e \<Rightarrow> Inl e | Inr (new, rest) \<Rightarrow> Inr (events @ new, rest))"

text \<open>
  The list \<open>all_candidates\<close> of line 588 for a role entered with the given cart and
  generator state (empty when the role is skipped).
\<close>

definition role_candidates :: "'g runtime \<Rightarrow> session_ctx \<Rightarrow> string \<Rightarrow> string list \<Rightarrow> 'g \<Rightarrow> string list" where
  "role_candidates env sc role cart g =
     (let role_items = role_items_of (sc_template sc) role;
          valid_candidates = valid_candidates_of sc role_items cart
      in if role_items = [] then []
         else case np_choice_noreplace env (noise_pool_of sc cart valid_candidates)
                     (noise_size_of sc cart valid_candidates) g of
                Inl e \<Rightarrow> []
              | Inr (noise_candidates, g1) \<Rightarrow> valid_candidates @ noise_candidates)"

text \<open>The property of an event that claim C3 is about.\<close>

definition event_ok :: "Event \<Rightarrow> bool" where
  "event_ok ev = (ev_candidate_item_id ev \<notin> set (ev_cart_items ev) \<and> distinct (ev_cart_items ev))"

text \<open>
  Two events that agree in every field, except that \<open>cart_categories\<close> and
  \<open>cart_cuisines\<close> may list the same elements in another order.
\<close>

definition same_up_to_set_order :: "Event \<Rightarrow> Event \<Rightarrow> bool" where
  "same_up_to_set_order a b =
     (a\<lparr>ev_cart_categories := [], ev_cart_cuisines := []\<rparr>
        = b\<lparr>ev_cart_categories := [], ev_cart_cuisines := []\<rparr>
      \<and> set (ev_cart_categories a) = set (ev_cart_categories b)
      \<and> set (ev_cart_cuisines a) = set (ev_cart_cuisines b))"

definition same_state ::
  "Event list \<times> string list \<times> 'g \<Rightarrow> Event list \<times> string list \<times> 'g \<Rightarrow> bool" where
  "same_state s1 s2 =
     (list_all2 same_up_to_set_order (fst s1) (fst s2) \<and> snd s1 = snd s2)"

definition same_events :: "Event list \<times> 'c \<Rightarrow> Event list \<times> 'c \<Rightarrow> bool" where
  "same_events s1 s2 = (list_all2 same_up_to_set_order (fst s1) (fst s2) \<and> snd s1 = snd s2)"

text \<open>The session context that \<open>run_session\<close> builds.\<close>

definition mk_ctx ::
  "(string \<Rightarrow> MenuItem option) \<Rightarrow> string list \<Rightarrow> UserProfile \<Rightarrow> nat \<Rightarrow> datetime
   \<Rightarrow> string \<times> MealTemplate \<Rightarrow> bool \<Rightarrow> session_ctx" where
  "mk_ctx item_lookup all_item_ids user n ts tt abandoned =
     \<lparr>sc_item_lookup = item_lookup, sc_all_item_ids = all_item_ids, sc_user = user,
      sc_session_id = format_session_id n, sc_timestamp = ts,
      sc_meal_time = get_meal_time (int (dt_hour ts)),
      sc_template_name = fst tt, sc_template = snd tt, sc_is_abandoned = abandoned\<rparr>"

text \<open>
  An event whose cart is not empty and whose cart items and candidate are catalog items;
  an event of the session with a given id.
\<close>

definition event_in_catalog :: "(string \<Rightarrow> MenuItem option) \<Rightarrow> Event \<Rightarrow> bool" where
  "event_in_catalog item_lookup ev =
     (ev_cart_items ev \<noteq> [] \<and> list_all (\<lambda>c. item_lookup c \<noteq> None) (ev_cart_items ev)
      \<and> item_lookup (ev_candidate_item_id ev) \<noteq> None)"

definition event_of_session :: "session_ctx \<Rightarrow> Event \<Rightarrow> bool" where
  "event_of_session sc ev =
     (ev_session_id ev = sc_session_id sc \<and> ev_user_id ev = user_id (sc_user sc))"

text \<open>The state of the generator after i calls of \<open>rng.random()\<close>.\<close>

fun draw_state :: "'g runtime \<Rightarrow> 'g \<Rightarrow> nat \<Rightarrow> 'g" where
  "draw_state env g 0 = g"
| "draw_state env g (Suc i) = draw_state env (snd (rng_random env g)) i"

text \<open>
  The event lists with which a session over a given catalog can start: the empty list of
  line 505, and what any session over this catalog returns for such a list.
\<close>

inductive session_start :: "'g runtime \<Rightarrow> MenuItem list \<Rightarrow> Event list \<Rightarrow> bool"
  for env :: "'g runtime" and catalog :: "MenuItem list" where
  initial: "session_start env catalog []"
| session: "session_start env catalog events \<Longrightarrow>
     run_session env (item_lookup_of catalog) (all_item_ids_of catalog) user start_date n
       day_offset (events, g) = Inr (events', g') \<Longrightarrow>
     session_start env catalog events'"

section \<open>Basic facts\<close>

lemma ebind_Inr [simp]: "ebind (Inr x) f = f x"
  by (simp add: ebind_def)

lemma ebind_Inl [simp]: "ebind (Inl e) f = Inl e"
  by (simp add: ebind_def)

lemma ebind_eq_Inr: "ebind m f = Inr y \<longleftrightarrow> (\<exists>x. m = Inr x \<and> f x = Inr y)"
  by (cases m) simp_all

lemma ebind_cong: "(\<And>x. m = Inr x \<Longrightarrow> f x = f' x) \<Longrightarrow> ebind m f = ebind m f'"
  by (cases m) simp_all

lemma tape_runtime_contract: "rng_contract (tape_runtime order)"
  unfolding rng_contract_def tape_runtime_def
  by (auto simp: set_take_subset distinct_take dest: in_set_takeD)

section \<open>Meal-time buckets\<close>

text \<open>
  C10: for every integer hour, \<open>_get_meal_time\<close> returns one of the five bucket names
  breakfast, lunch, snacks, dinner, late_night; each of them is a key of
  \<open>MEALTIME_TEMPLATE_WEIGHTS\<close>, so the lookup of line 520 never takes its lunch
  fallback: it returns the table's own entry for the bucket.
\<close>

theorem get_meal_time_bucket_is_key:
  "get_meal_time h \<in> {''breakfast'', ''lunch'', ''snacks'', ''dinner'', ''late_night''}
   \<and> {''breakfast'', ''lunch'', ''snacks'', ''dinner'', ''late_night''}
        = set (map fst MEALTIME_TEMPLATE_WEIGHTS)
   \<and> \<not> weights_fallback_taken (get_meal_time h)
   \<and> template_weights_for (get_meal_time h)
        = Inr (the (map_of MEALTIME_TEMPLATE_WEIGHTS (get_meal_time h)))"
  by (simp add: get_meal_time_def weights_fallback_taken_def template_weights_for_def
      MEALTIME_TEMPLATE_WEIGHTS_def)

theorem get_meal_time_bucket_is_key_witness:
  "get_meal_time 7 = ''breakfast'' \<and> get_meal_time 23 = ''late_night''
   \<and> \<not> weights_fallback_taken (get_meal_time 7)
   \<and> template_weights_for (get_meal_time 7)
        = Inr [(''south_indian_breakfast'', 0.5), (''street_food_snack'', 0.3),
               (''continental_meal'', 0.2)]"
  using get_meal_time_bucket_is_key [of 7]
  by (simp add: get_meal_time_def MEALTIME_TEMPLATE_WEIGHTS_def)


section \<open>The per-role acceptance probability\<close>

lemma clamp_weekend_once:
  "clamp_weekend x weekend = min 0.95 (x * (if weekend then 1.15 else 1))"
  by (simp add: clamp_weekend_def min_def)

lemma clamp_weekend_bounds: "0 \<le> x \<Longrightarrow> 0 \<le> clamp_weekend x weekend \<and> clamp_weekend x weekend \<le> 0.95"
  by (simp add: clamp_weekend_def min_def)

lemma role_accept_prob_unfold:
  "role_accept_prob t user ts role =
     ebind (segment_multiplier (segment user))
       (\<lambda>m. Inr (clamp_weekend (base_accept_prob_of t role * m) (weekday ts \<ge> 5)))"
  by (simp add: role_accept_prob_def clamp_weekend_def Let_def)

lemma template_completion_key_list:
  assumes "(tname, t) \<in> set MEAL_TEMPLATES"
  shows "map fst (completion_prob t) = [''complement'', ''addon'', ''finisher'']"
  using assms by (auto simp: MEAL_TEMPLATES_def)

lemma template_completion_keys:
  assumes "(tname, t) \<in> set MEAL_TEMPLATES"
    and "role \<in> {''complement'', ''addon'', ''finisher''}"
  shows "map_of (completion_prob t) role \<noteq> None"
proof -
  have "role \<in> set (map fst (completion_prob t))"
    unfolding template_completion_key_list [OF assms(1)] using assms(2) by simp
  then show ?thesis by (simp add: map_of_eq_None_iff)
qed

lemma segment_multiplier_cases:
  "segment_multiplier seg = Inr m \<Longrightarrow>
     seg \<in> {''new'', ''regular'', ''power''} \<and> m = spec_segment_multiplier seg \<and> 0 < m"
  by (auto simp: segment_multiplier_def spec_segment_multiplier_def split: if_splits)

lemma segment_multiplier_known:
  "seg \<in> {''new'', ''regular'', ''power''} \<Longrightarrow> segment_multiplier seg = Inr (spec_segment_multiplier seg)"
  by (auto simp: segment_multiplier_def spec_segment_multiplier_def)

lemma run_role_entered:
  assumes "role_items_of (sc_template sc) role \<noteq> []"
    and "role_accept_prob (sc_template sc) (sc_user sc) (sc_timestamp sc) role = Inr ap"
  shows "run_role env sc role (events, cart, g) =
           ebind (np_choice_noreplace env
                    (noise_pool_of sc cart
                       (valid_candidates_of sc (role_items_of (sc_template sc) role) cart))
                    (noise_size_of sc cart
                       (valid_candidates_of sc (role_items_of (sc_template sc) role) cart)) g)
             (\<lambda>(noise_candidates, g1).
                run_candidates env sc ap noise_candidates
                  (valid_candidates_of sc (role_items_of (sc_template sc) role) cart @ noise_candidates)
                  (events, cart, g1))"
  using assms by (simp add: run_role_def Let_def)

section \<open>Bounds of the acceptance probability\<close>

lemma base_accept_prob_nonneg:
  assumes "(tname, t) \<in> set MEAL_TEMPLATES"
  shows "0 \<le> base_accept_prob_of t role"
  using assms by (auto simp: MEAL_TEMPLATES_def base_accept_prob_of_def)

lemma candidate_accept_spec:
  "candidate_accept ap cid noise it user mt = spec_candidate_prob ap (cid \<in> set noise) it user mt"
  by (simp add: candidate_accept_def spec_candidate_prob_def Let_def)

lemma spec_candidate_prob_bounds:
  assumes "0 \<le> ap"
  shows "0 \<le> spec_candidate_prob ap b it user mt \<and> spec_candidate_prob ap b it user mt \<le> ap"
proof -
  have m: "\<And>x f::real. 0 \<le> x \<Longrightarrow> 0 < f \<Longrightarrow> f \<le> 1 \<Longrightarrow> 0 \<le> x * f \<and> x * f \<le> x"
    by (simp add: mult_left_le)
  define p1 where "p1 = ap * (if b then 0.08 else 1)"
  define p2 where "p2 = p1 * (if is_veg it \<and> veg_preference user < 0.3 then 0.6 else 1)"
  define p3 where "p3 = p2 * (if \<not> is_veg it \<and> veg_preference user > 0.7 then 0.05 else 1)"
  define p4 where "p4 = p3 * (if price it > 200 \<and> price_sensitivity user > 0.7 then 0.4 else 1)"
  define p5 where "p5 = p4 * (if mt \<notin> set (meal_times it) then 0.15 else 1)"
  have 1: "0 \<le> p1 \<and> p1 \<le> ap" unfolding p1_def using m [OF assms] by simp
  have 2: "0 \<le> p2 \<and> p2 \<le> p1" unfolding p2_def using m [of p1] 1 by simp
  have 3: "0 \<le> p3 \<and> p3 \<le> p2" unfolding p3_def using m [of p2] 2 by simp
  have 4: "0 \<le> p4 \<and> p4 \<le> p3" unfolding p4_def using m [of p3] 3 by simp
  have 5: "0 \<le> p5 \<and> p5 \<le> p4" unfolding p5_def using m [of p4] 4 by simp
  have "spec_candidate_prob ap b it user mt = p5"
    by (simp only: spec_candidate_prob_def p1_def p2_def p3_def p4_def p5_def)
  with 1 2 3 4 5 show ?thesis by linarith
qed

text \<open>
  C6: for a template of \<open>MEAL_TEMPLATES\<close>, the per-role probability lies in [0, 0.95],
  and the acceptance probability of every candidate lies between 0 and the per-role
  probability, hence in [0, 0.95], without a final clamp: every modifier is a factor in
  (0, 1).
\<close>

theorem candidate_accept_bounds:
  assumes "(tname, t) \<in> set MEAL_TEMPLATES"
    and "role_accept_prob t user ts role = Inr ap"
  shows "0 \<le> ap \<and> ap \<le> 0.95
         \<and> 0 \<le> candidate_accept ap cid noise it user mt
         \<and> candidate_accept ap cid noise it user mt \<le> ap
         \<and> candidate_accept ap cid noise it user mt \<le> 0.95"
proof -
  obtain m where m: "segment_multiplier (segment user) = Inr m"
    and ap: "ap = clamp_weekend (base_accept_prob_of t role * m) (weekday ts \<ge> 5)"
    using assms(2) by (auto simp: role_accept_prob_unfold ebind_eq_Inr)
  have "0 < m" using segment_multiplier_cases [OF m] by simp
  then have "0 \<le> base_accept_prob_of t role * m"
    using base_accept_prob_nonneg [OF assms(1), of role] by simp
  then have "0 \<le> ap \<and> ap \<le> 0.95"
    unfolding ap by (rule clamp_weekend_bounds)
  then show ?thesis
    using spec_candidate_prob_bounds [of ap "cid \<in> set noise" it user mt]
    by (simp add: candidate_accept_spec)
qed

theorem candidate_accept_bounds_witness:
  "(''biryani_meal'', sc_template ctx_1) \<in> set MEAL_TEMPLATES
   \<and> role_accept_prob (sc_template ctx_1) user_1 (sc_timestamp ctx_1) ''complement'' = Inr 0.7475
   \<and> candidate_accept 0.7475 ''ITEM_050'' [''ITEM_050''] ITEM_050 user_1 ''lunch'' = 0.0598
   \<and> (0::real) \<le> 0.0598 \<and> (0.0598::real) \<le> 0.7475 \<and> (0.7475::real) \<le> 0.95"
proof -
  have h1: "(''biryani_meal'', sc_template ctx_1) \<in> set MEAL_TEMPLATES" by code_simp
  have h2: "role_accept_prob (sc_template ctx_1) user_1 (sc_timestamp ctx_1) ''complement'' = Inr 0.7475"
    by code_simp
  have v: "candidate_accept 0.7475 ''ITEM_050'' [''ITEM_050''] ITEM_050 user_1 ''lunch'' = 0.0598"
    by code_simp
  from candidate_accept_bounds [OF h1 h2, of "''ITEM_050''" "[''ITEM_050'']" ITEM_050 "''lunch''"]
  show ?thesis using h1 h2 v by simp
qed

section \<open>Evaluating one candidate\<close>

lemma noise_candidates_from_pool:
  assumes "rng_contract env" and "distinct (sc_all_item_ids sc)"
    and "np_choice_noreplace env (noise_pool_of sc cart valid) k g = Inr (noise, g1)"
  shows "distinct noise \<and> set noise \<subseteq> set (noise_pool_of sc cart valid)
         \<and> set noise \<inter> set valid = {} \<and> set noise \<inter> set cart = {}
         \<and> int (length noise) = k"
proof -
  let ?pool = "noise_pool_of sc cart valid"
  have k: "0 \<le> k" "k \<le> int (length ?pool)"
    and r: "rng_choice_noreplace env ?pool (nat k) g = (noise, g1)"
    using assms(3) by (auto simp: np_choice_noreplace_def split: if_splits)
  have d: "distinct ?pool" using assms(2) by (simp add: noise_pool_of_def)
  have "nat k \<le> length ?pool" using k by simp
  with d assms(1) have
    "length (fst (rng_choice_noreplace env ?pool (nat k) g)) = nat k
     \<and> distinct (fst (rng_choice_noreplace env ?pool (nat k) g))
     \<and> set (fst (rng_choice_noreplace env ?pool (nat k) g)) \<subseteq> set ?pool"
    unfolding rng_contract_def by blast
  then have n: "length noise = nat k" "distinct noise" "set noise \<subseteq> set ?pool"
    using r by simp_all
  have "set ?pool \<inter> set valid = {}" "set ?pool \<inter> set cart = {}"
    by (auto simp: noise_pool_of_def)
  with n k show ?thesis by auto
qed

lemma candidate_step_unfold:
  "candidate_step env sc accept_prob noise cand_id (events, cart, g) =
     ebind (get_item (sc_item_lookup sc) cand_id) (\<lambda>cand_item.
       ebind (make_event env sc cart cand_id cand_item
                (if fst (rng_random env g)
                      < candidate_accept accept_prob cand_id noise cand_item (sc_user sc) (sc_meal_time sc)
                 then 1 else 0))
         (\<lambda>event. Inr (events @ [event],
                        (if ev_candidate_accepted event = 1 then cart @ [cand_id] else cart),
                        snd (rng_random env g))))"
proof -
  have acc: "\<And>it a e. make_event env sc cart cand_id it a = Inr e \<Longrightarrow> ev_candidate_accepted e = a"
    by (auto simp: make_event_def ebind_eq_Inr Let_def split: if_splits)
  show ?thesis
    unfolding candidate_step_def
    by (auto simp: Let_def split_beta intro!: ebind_cong dest: acc)
qed

lemma make_event_fields:
  assumes "make_event env sc cart cand_id cand_item a = Inr e"
  shows "ev_candidate_accepted e = a" "ev_candidate_item_id e = cand_id" "ev_cart_items e = cart"
    "ev_session_id e = sc_session_id sc" "cart \<noteq> []" "ev_last_item_added e = last cart"
    "\<forall>c \<in> set cart. sc_item_lookup sc c \<noteq> None"
    "ev_user_id e = user_id (sc_user sc)"
proof -
  obtain things where t: "emap (get_item (sc_item_lookup sc)) cart = Inr things"
    using assms by (auto simp: make_event_def ebind_eq_Inr)
  have "\<And>things. emap (get_item (sc_item_lookup sc)) cart = Inr things
          \<Longrightarrow> \<forall>c \<in> set cart. sc_item_lookup sc c \<noteq> None"
    by (induction cart) (auto simp: ebind_eq_Inr get_item_def split: option.splits)
  with t show "\<forall>c \<in> set cart. sc_item_lookup sc c \<noteq> None" by blast
  show "ev_candidate_accepted e = a" "ev_candidate_item_id e = cand_id" "ev_cart_items e = cart"
    "ev_session_id e = sc_session_id sc" "cart \<noteq> []" "ev_last_item_added e = last cart"
    "ev_user_id e = user_id (sc_user sc)"
    using assms by (auto simp: make_event_def ebind_eq_Inr Let_def split: if_splits)
qed

text \<open>
  C1: when a candidate of a role's list (template candidates followed by the noise
  candidates drawn for the role) is evaluated, it counts as noise exactly when it is not a
  template candidate; its acceptance probability is the role's probability times 0.08 for
  a noise candidate, 0.6 for a veg candidate and a user with veg preference below 0.3,
  0.05 for a non-veg candidate and a veg preference above 0.7, 0.4 for a price above 200
  and a price sensitivity above 0.7, and 0.15 when the meal time is not among the
  candidate's meal times; one event is appended, whose label is 1 if the single uniform
  draw is below this probability and 0 otherwise.
\<close>

theorem candidate_step_acceptance:
  assumes "rng_contract env" and "distinct (sc_all_item_ids sc)"
    and "np_choice_noreplace env (noise_pool_of sc cart0 valid) k g0 = Inr (noise, g1)"
    and "cand_id \<in> set (valid @ noise)"
    and "candidate_step env sc accept_prob noise cand_id (events, cart, g) = Inr (events', cart', g')"
  shows "\<exists>cand_item ev.
           sc_item_lookup sc cand_id = Some cand_item
         \<and> (cand_id \<in> set noise \<longleftrightarrow> cand_id \<notin> set valid)
         \<and> candidate_accept accept_prob cand_id noise cand_item (sc_user sc) (sc_meal_time sc)
             = spec_candidate_prob accept_prob (cand_id \<notin> set valid) cand_item
                 (sc_user sc) (sc_meal_time sc)
         \<and> events' = events @ [ev]
         \<and> ev_candidate_item_id ev = cand_id
         \<and> ev_candidate_accepted ev
             = (if fst (rng_random env g)
                     < spec_candidate_prob accept_prob (cand_id \<notin> set valid) cand_item
                         (sc_user sc) (sc_meal_time sc)
                then 1 else 0)
         \<and> g' = snd (rng_random env g)"
proof -
  have disj: "set noise \<inter> set valid = {}"
    using noise_candidates_from_pool [OF assms(1,2,3)] by simp
  with assms(4) have flag: "cand_id \<in> set noise \<longleftrightarrow> cand_id \<notin> set valid" by auto
  obtain cand_item ev where it: "get_item (sc_item_lookup sc) cand_id = Inr cand_item"
    and ev: "make_event env sc cart cand_id cand_item
               (if fst (rng_random env g)
                     < candidate_accept accept_prob cand_id noise cand_item (sc_user sc) (sc_meal_time sc)
                then 1 else 0) = Inr ev"
    and res: "events' = events @ [ev]" "g' = snd (rng_random env g)"
    using assms(5) unfolding candidate_step_unfold by (auto simp: ebind_eq_Inr)
  have lk: "sc_item_lookup sc cand_id = Some cand_item"
    using it by (simp add: get_item_def split: option.splits)
  show ?thesis
    using lk flag res make_event_fields(1,2) [OF ev]
    by (simp add: candidate_accept_spec)
qed

theorem candidate_step_acceptance_witness:
  "rng_contract (tape_runtime remdups)
   \<and> distinct (sc_all_item_ids ctx_1)
   \<and> np_choice_noreplace (tape_runtime remdups) (noise_pool_of ctx_1 [''ITEM_003''] [''ITEM_035''])
        1 [0] = Inr ([''ITEM_050''], [])
   \<and> ''ITEM_050'' \<in> set ([''ITEM_035''] @ [''ITEM_050''])
   \<and> snd (projr (candidate_step (tape_runtime remdups) ctx_1 0.65 [''ITEM_050''] ''ITEM_050''
                    ([], [''ITEM_003'', ''ITEM_035''], [3])))
        = ([''ITEM_003'', ''ITEM_035'', ''ITEM_050''], [])
   \<and> spec_candidate_prob 0.65 True ITEM_050 user_1 ''lunch'' = 0.052
   \<and> map ev_candidate_accepted
        (fst (projr (candidate_step (tape_runtime remdups) ctx_1 0.65 [''ITEM_050''] ''ITEM_050''
                       ([], [''ITEM_003'', ''ITEM_035''], [3])))) = [1]"
proof -
  let ?E = "tape_runtime remdups"
  let ?r = "candidate_step ?E ctx_1 0.65 [''ITEM_050''] ''ITEM_050'' ([], [''ITEM_003'', ''ITEM_035''], [3])"
  have h1: "rng_contract ?E" by (rule tape_runtime_contract)
  have h2: "distinct (sc_all_item_ids ctx_1)" by code_simp
  have h3: "np_choice_noreplace ?E (noise_pool_of ctx_1 [''ITEM_003''] [''ITEM_035'']) 1 [0]
              = Inr ([''ITEM_050''], [])" by code_simp
  have h4: "''ITEM_050'' \<in> set ([''ITEM_035''] @ [''ITEM_050''])" by simp
  have h5: "?r = Inr (fst (projr ?r), [''ITEM_003'', ''ITEM_035'', ''ITEM_050''], [])" by code_simp
  have lk: "sc_item_lookup ctx_1 ''ITEM_050'' = Some ITEM_050" by code_simp
  have u: "fst (rng_random ?E [3]) = 0.03" by code_simp
  have p: "spec_candidate_prob 0.65 True ITEM_050 user_1 ''lunch'' = 0.052" by code_simp
  have cx: "sc_user ctx_1 = user_1" "sc_meal_time ctx_1 = ''lunch''" by code_simp+
  from candidate_step_acceptance [OF h1 h2 h3 h4 h5]
  obtain cand_item ev where
    "sc_item_lookup ctx_1 ''ITEM_050'' = Some cand_item"
    "fst (projr ?r) = [] @ [ev]"
    "ev_candidate_accepted ev
       = (if fst (rng_random ?E [3])
               < spec_candidate_prob 0.65 (''ITEM_050'' \<notin> set [''ITEM_035'']) cand_item
                   (sc_user ctx_1) (sc_meal_time ctx_1)
          then 1 else 0)"
    by blast
  then have "map ev_candidate_accepted (fst (projr ?r)) = [1]"
    using lk u p cx by simp
  moreover have "snd (projr ?r) = ([''ITEM_003'', ''ITEM_035'', ''ITEM_050''], [])"
    by (subst h5) simp
  ultimately show ?thesis using h1 h2 h3 h4 p by simp
qed

section \<open>Anchor selection\<close>




lemma sum_list_nonneg_pos:
  fixes xs :: "real list"
  assumes "\<forall>x \<in> set xs. 0 \<le> x" and "\<exists>x \<in> set xs. x \<noteq> 0"
  shows "0 < sum_list xs"
  using assms
proof (induction xs)
  case Nil
  then show ?case by simp
next
  case (Cons x xs)
  have nn: "0 \<le> sum_list xs" using Cons.prems(1) by (simp add: sum_list_nonneg)
  show ?case
  proof (cases "x = 0")
    case True
    then show ?thesis using Cons by auto
  next
    case False
    then have "0 < x" using Cons.prems(1) by auto
    then show ?thesis using nn by simp
  qed
qed

lemma normalize_probs_distribution:
  assumes "0 < sum_list ps" and "\<forall>p \<in> set ps. 0 \<le> p"
  shows "normalize_probs ps = Inr (map (\<lambda>p. p / sum_list ps) ps)"
    and "sum_list (map (\<lambda>p. p / sum_list ps) ps) = 1"
    and "\<forall>q \<in> set (map (\<lambda>p. p / sum_list ps) ps). 0 \<le> q"
proof -
  show "normalize_probs ps = Inr (map (\<lambda>p. p / sum_list ps) ps)"
    using assms(1) by (simp add: normalize_probs_def)
  have "sum_list (map (\<lambda>p. p / sum_list ps) ps) = sum_list ps / sum_list ps"
    by (simp add: divide_inverse sum_list_mult_const)
  then show "sum_list (map (\<lambda>p. p / sum_list ps) ps) = 1" using assms(1) by simp
  show "\<forall>q \<in> set (map (\<lambda>p. p / sum_list ps) ps). 0 \<le> q"
    using assms by auto
qed

lemma np_choice_p_distribution:
  assumes "xs \<noteq> []" "length ps = length xs" "\<forall>p \<in> set ps. 0 \<le> p" "sum_list ps = 1"
  shows "np_choice_p env xs ps g = Inr (rng_choice_p env xs ps g)"
  using assms by (auto simp: np_choice_p_def list_ex_iff not_less)



section \<open>Template selection never fails\<close>

text \<open>
  Under numpy's contract the template draw of lines 520-534 raises nothing: the weights
  of every meal time are positive, their templates exist, and the adjusted weights
  normalize to a distribution.
\<close>

lemma weight_tables_wellformed:
  "list_all (\<lambda>mw. snd mw \<noteq> []
               \<and> list_all (\<lambda>tw. map_of MEAL_TEMPLATES (fst tw) \<noteq> None \<and> 0 < snd tw) (snd mw))
     MEALTIME_TEMPLATE_WEIGHTS"
  by code_simp

lemma emap_total:
  assumes "\<forall>x \<in> set xs. \<exists>y. f x = Inr y \<and> P y"
  shows "\<exists>ys. emap f xs = Inr ys \<and> length ys = length xs \<and> (\<forall>y \<in> set ys. P y)"
  using assms
proof (induction xs)
  case Nil
  then show ?case by simp
next
  case (Cons x xs)
  from Cons.prems obtain y where y: "f x = Inr y" "P y" by auto
  from Cons obtain ys where ys: "emap f xs = Inr ys" "length ys = length xs" "\<forall>y \<in> set ys. P y"
    by auto
  show ?case using y ys by (intro exI [of _ "y # ys"]) simp
qed

lemma sum_list_pos_real:
  fixes xs :: "real list"
  assumes "xs \<noteq> []" and "\<forall>x \<in> set xs. 0 < x"
  shows "0 < sum_list xs"
proof (rule sum_list_nonneg_pos)
  show "\<forall>x \<in> set xs. 0 \<le> x" using assms(2) by (auto intro: less_imp_le)
  obtain x where x: "x \<in> set xs" using assms(1) by (cases xs) auto
  then have "0 < x" using assms(2) by simp
  then have "x \<noteq> 0" by simp
  with x show "\<exists>x \<in> set xs. x \<noteq> 0" by blast
qed

lemma choose_template_succeeds:
  assumes "rng_contract env"
  shows "\<exists>tname t g2. choose_template env item_lookup user (get_meal_time h) g = Inr ((tname, t), g2)
           \<and> (tname, t) \<in> set MEAL_TEMPLATES"
proof -
  let ?mt = "get_meal_time h"
  have "?mt \<in> fst ` set MEALTIME_TEMPLATE_WEIGHTS"
    by (simp add: get_meal_time_def MEALTIME_TEMPLATE_WEIGHTS_def)
  then obtain w where w: "map_of MEALTIME_TEMPLATE_WEIGHTS ?mt = Some w"
    by (cases "map_of MEALTIME_TEMPLATE_WEIGHTS ?mt") (simp_all add: map_of_eq_None_iff)
  have "''lunch'' \<in> fst ` set MEALTIME_TEMPLATE_WEIGHTS"
    by (simp add: MEALTIME_TEMPLATE_WEIGHTS_def)
  then have "map_of MEALTIME_TEMPLATE_WEIGHTS ''lunch'' \<noteq> None"
    by (simp add: map_of_eq_None_iff)
  then have tw: "template_weights_for ?mt = Inr w"
    using w by (auto simp: template_weights_for_def split: option.splits)
  have "(?mt, w) \<in> set MEALTIME_TEMPLATE_WEIGHTS" using w by (rule map_of_SomeD)
  then have wf: "w \<noteq> []"
    "\<forall>tw \<in> set w. map_of MEAL_TEMPLATES (fst tw) \<noteq> None \<and> 0 < snd tw"
    using weight_tables_wellformed unfolding list_all_iff by fastforce+
  have "\<forall>tw \<in> set w. \<exists>p. adjusted_weight item_lookup user tw = Inr p \<and> 0 < p"
  proof
    fix tw assume "tw \<in> set w"
    then obtain t where t: "map_of MEAL_TEMPLATES (fst tw) = Some t" and p: "0 < snd tw"
      using wf(2) by auto
    have "0 < snd tw * (1.0 + 0.3 * real (cuisine_overlap item_lookup user t))"
      using p by (intro mult_pos_pos) simp_all
    then show "\<exists>p. adjusted_weight item_lookup user tw = Inr p \<and> 0 < p"
      using t by (simp add: adjusted_weight_def get_template_def)
  qed
  from emap_total [OF this] obtain ps where
    ps: "emap (adjusted_weight item_lookup user) w = Inr ps" "length ps = length w"
      "\<forall>p \<in> set ps. 0 < p"
    by blast
  have "ps \<noteq> []" using ps(2) wf(1) by auto
  then have pos: "0 < sum_list ps" using ps(3) by (rule sum_list_pos_real)
  have nn: "\<forall>p \<in> set ps. 0 \<le> p" using ps(3) by (auto intro: less_imp_le)
  note d = normalize_probs_distribution [OF pos nn]
  let ?names = "map fst w"
  let ?probs = "map (\<lambda>p. p / sum_list ps) ps"
  have names: "?names \<noteq> []" using wf(1) by simp
  have len: "length ?probs = length ?names" using ps(2) by simp
  have ch: "np_choice_p env ?names ?probs g = Inr (rng_choice_p env ?names ?probs g)"
    by (rule np_choice_p_distribution [OF names len d(3) d(2)])
  obtain tname g2 where r: "rng_choice_p env ?names ?probs g = (tname, g2)"
    by (cases "rng_choice_p env ?names ?probs g") auto
  have "fst (rng_choice_p env ?names ?probs g) \<in> set ?names"
    using assms names unfolding rng_contract_def by blast
  then have "tname \<in> fst ` set w" using r by simp
  then obtain t where t: "map_of MEAL_TEMPLATES tname = Some t"
    using wf(2) by auto
  have "choose_template env item_lookup user ?mt g = Inr ((tname, t), g2)"
    unfolding choose_template_def tw ebind_Inr Let_def ps(1) d(1) ch r
    using t by (simp add: get_template_def)
  moreover have "(tname, t) \<in> set MEAL_TEMPLATES" using t by (rule map_of_SomeD)
  ultimately show ?thesis by blast
qed

section \<open>Sessions without a valid anchor\<close>

text \<open>
  C8: when none of the chosen template's anchors is in the catalog, the session returns
  without an error, with the event list unchanged and the generator as the template draw
  left it (the draw of lines 658-661 is not made), and the order loop goes on with the
  next order. The template draw before it raises nothing (\<open>choose_template_succeeds\<close>).
\<close>

theorem session_without_anchor_skipped:
  assumes "add_days start_date day_offset = Inr base_date"
    and "sample_timestamp env g base_date = (ts, g1)"
    and "choose_template env item_lookup user (get_meal_time (int (dt_hour ts))) g1
           = Inr ((tname, t), g2)"
    and "valid_anchors_of item_lookup t = []"
  shows "run_session env item_lookup all_item_ids user start_date (Suc n) day_offset (events, g)
           = Inr (events, g2)
       \<and> run_orders env item_lookup all_item_ids user start_date (day_offset # rest) (events, n, g)
           = run_orders env item_lookup all_item_ids user start_date rest (events, Suc n, g2)"
  using assms by (simp add: run_session_def Let_def)

theorem session_without_anchor_skipped_witness:
  "add_days start_2025 3 = Inr (start_2025\<lparr>dt_ordinal := 739255\<rparr>)
   \<and> sample_timestamp (tape_runtime remdups) [10, 2, 1] (start_2025\<lparr>dt_ordinal := 739255\<rparr>)
        = (start_2025\<lparr>dt_ordinal := 739255, dt_hour := 12, dt_minute := 30\<rparr>, [1])
   \<and> choose_template (tape_runtime remdups) (item_lookup_of small_catalog) user_1
        (get_meal_time (int (dt_hour (start_2025\<lparr>dt_ordinal := 739255, dt_hour := 12, dt_minute := 30\<rparr>))))
        [1]
        = Inr ((''north_indian_curry'', the (map_of MEAL_TEMPLATES ''north_indian_curry'')), [])
   \<and> valid_anchors_of (item_lookup_of small_catalog) (the (map_of MEAL_TEMPLATES ''north_indian_curry''))
        = []
   \<and> run_session (tape_runtime remdups) (item_lookup_of small_catalog) (all_item_ids_of small_catalog)
        user_1 start_2025 (Suc 0) 3 (events_1, [10, 2, 1]) = Inr (events_1, [])"
proof -
  let ?E = "tape_runtime remdups"
  let ?b = "start_2025\<lparr>dt_ordinal := 739255\<rparr>"
  let ?ts = "start_2025\<lparr>dt_ordinal := 739255, dt_hour := 12, dt_minute := 30\<rparr>"
  let ?t = "the (map_of MEAL_TEMPLATES ''north_indian_curry'')"
  have h1: "add_days start_2025 3 = Inr ?b" by code_simp
  have h2: "sample_timestamp ?E [10, 2, 1] ?b = (?ts, [1])" by code_simp
  have h3: "choose_template ?E (item_lookup_of small_catalog) user_1
              (get_meal_time (int (dt_hour ?ts))) [1] = Inr ((''north_indian_curry'', ?t), [])"
    by code_simp
  have h4: "valid_anchors_of (item_lookup_of small_catalog) ?t = []" by code_simp
  from session_without_anchor_skipped
         [OF h1 h2 h3 h4, where all_item_ids = "all_item_ids_of small_catalog" and n = 0
            and events = events_1]
  show ?thesis using h1 h2 h3 h4 by simp
qed

section \<open>The override of the last event\<close>

lemma mark_last_abandoned_nth:
  "i < length events \<Longrightarrow>
   mark_last_abandoned events ! i =
     (if i = length events - 1 then (events ! i)\<lparr>ev_is_abandoned := 1\<rparr> else events ! i)"
  by (simp add: mark_last_abandoned_def nth_list_update)

lemma length_mark_last_abandoned [simp]: "length (mark_last_abandoned events) = length events"
  by (simp add: mark_last_abandoned_def)

lemma last_mark_last_abandoned:
  assumes "events \<noteq> []"
  shows "last (mark_last_abandoned events) = (last events)\<lparr>ev_is_abandoned := 1\<rparr>"
proof -
  have "mark_last_abandoned events \<noteq> []"
    using assms by (simp add: mark_last_abandoned_def)
  then have "last (mark_last_abandoned events) = mark_last_abandoned events ! (length events - 1)"
    by (simp add: last_conv_nth)
  also have "\<dots> = (events ! (length events - 1))\<lparr>ev_is_abandoned := 1\<rparr>"
    using assms by (simp add: mark_last_abandoned_nth)
  also have "events ! (length events - 1) = last events"
    using assms by (simp add: last_conv_nth)
  finally show ?thesis .
qed

text \<open>
  The step of lines 658-661 on the event list it is given: it draws one uniform number;
  when that is below 0.05 and the list is not empty, the last event of the list gets
  \<open>is_abandoned = 1\<close> and keeps every other field; otherwise it is unchanged. No other
  event changes and no event is added or removed.
\<close>

lemma finish_session_frame:
  assumes "finish_session env (events, g) = (events', g')"
  shows "g' = snd (rng_random env g)
       \<and> length events' = length events
       \<and> (\<forall>i. i + 1 < length events \<longrightarrow> events' ! i = events ! i)
       \<and> (events \<noteq> [] \<longrightarrow>
            last events' = (if fst (rng_random env g) < 0.05
                            then (last events)\<lparr>ev_is_abandoned := 1\<rparr> else last events))"
proof (cases "fst (rng_random env g) < 0.05 \<and> length events > 0")
  case True
  then have e: "events' = mark_last_abandoned events" and g: "g' = snd (rng_random env g)"
    using assms by (auto simp: finish_session_def split_beta)
  have "last events' = (last events)\<lparr>ev_is_abandoned := 1\<rparr>"
    using True unfolding e by (simp add: last_mark_last_abandoned)
  then show ?thesis using True e g by (simp add: mark_last_abandoned_nth)
next
  case False
  then have "events' = events" "g' = snd (rng_random env g)"
    using assms by (auto simp: finish_session_def split_beta)
  with False show ?thesis by auto
qed

section \<open>The order of the roles\<close>

lemma emit_onto_simps [simp]:
  "emit_onto events (Inl e) = Inl e"
  "emit_onto events (Inr (new, rest)) = Inr (events @ new, rest)"
  by (simp_all add: emit_onto_def)

lemma emit_onto_Nil [simp]: "emit_onto [] r = r"
  by (cases r) auto

lemma emit_onto_ebind:
  "emit_onto events (ebind m f) = ebind m (\<lambda>x. emit_onto events (f x))"
  by (cases m) simp_all

lemma candidate_step_onto:
  "candidate_step env sc ap noise c (events, cart, g)
     = emit_onto events (candidate_step env sc ap noise c ([], cart, g))"
  unfolding candidate_step_unfold by (simp add: emit_onto_ebind)

lemma run_candidates_onto:
  "run_candidates env sc ap noise cs (events, cart, g)
     = emit_onto events (run_candidates env sc ap noise cs ([], cart, g))"
proof (induction cs arbitrary: events cart g)
  case Nil
  show ?case by simp
next
  case (Cons c cs)
  show ?case
  proof (cases "candidate_step env sc ap noise c ([], cart, g)")
    case (Inl e)
    then show ?thesis by (simp add: candidate_step_onto [of _ _ _ _ _ events])
  next
    case (Inr st)
    obtain new1 cart1 g1 where st: "st = (new1, cart1, g1)" by (cases st) auto
    have "run_candidates env sc ap noise (c # cs) (events, cart, g)
            = run_candidates env sc ap noise cs (events @ new1, cart1, g1)"
      using Inr st by (simp add: candidate_step_onto [of _ _ _ _ _ events])
    also have "\<dots> = emit_onto (events @ new1) (run_candidates env sc ap noise cs ([], cart1, g1))"
      by (rule Cons.IH)
    also have "\<dots> = emit_onto events (emit_onto new1 (run_candidates env sc ap noise cs ([], cart1, g1)))"
      by (cases "run_candidates env sc ap noise cs ([], cart1, g1)") auto
    also have "emit_onto new1 (run_candidates env sc ap noise cs ([], cart1, g1))
                 = run_candidates env sc ap noise cs (new1, cart1, g1)"
      by (rule Cons.IH [symmetric])
    also have "run_candidates env sc ap noise cs (new1, cart1, g1)
                 = run_candidates env sc ap noise (c # cs) ([], cart, g)"
      using Inr st by simp
    finally show ?thesis .
  qed
qed

lemma run_role_onto:
  "run_role env sc role (events, cart, g) = emit_onto events (run_role env sc role ([], cart, g))"
proof (cases "role_items_of (sc_template sc) role = []")
  case True
  then show ?thesis by (simp add: run_role_def)
next
  case False
  show ?thesis
  proof (cases "role_accept_prob (sc_template sc) (sc_user sc) (sc_timestamp sc) role")
    case (Inl e)
    with False show ?thesis by (simp add: run_role_def)
  next
    case ap: (Inr ap)
    show ?thesis
    proof (cases "np_choice_noreplace env
                    (noise_pool_of sc cart (valid_candidates_of sc (role_items_of (sc_template sc) role) cart))
                    (noise_size_of sc cart (valid_candidates_of sc (role_items_of (sc_template sc) role) cart)) g")
      case (Inl e)
      with False ap show ?thesis by (simp add: run_role_def)
    next
      case (Inr p)
      obtain noise g1 where p: "p = (noise, g1)" by (cases p) auto
      show ?thesis
        using False ap Inr p
        by (simp add: run_role_def run_candidates_onto [of _ _ _ _ _ events])
    qed
  qed
qed

lemma run_roles_onto:
  "run_roles env sc roles (events, cart, g) = emit_onto events (run_roles env sc roles ([], cart, g))"
proof (induction roles arbitrary: events cart g)
  case Nil
  show ?case by simp
next
  case (Cons r rs)
  show ?case
  proof (cases "run_role env sc r ([], cart, g)")
    case (Inl e)
    then show ?thesis by (simp add: run_role_onto [of _ _ _ events])
  next
    case (Inr st)
    obtain new1 cart1 g1 where st: "st = (new1, cart1, g1)" by (cases st) auto
    have "run_roles env sc (r # rs) (events, cart, g) = run_roles env sc rs (events @ new1, cart1, g1)"
      using Inr st by (simp add: run_role_onto [of _ _ _ events])
    also have "\<dots> = emit_onto (events @ new1) (run_roles env sc rs ([], cart1, g1))"
      by (rule Cons.IH)
    also have "\<dots> = emit_onto events (emit_onto new1 (run_roles env sc rs ([], cart1, g1)))"
      by (cases "run_roles env sc rs ([], cart1, g1)") auto
    also have "emit_onto new1 (run_roles env sc rs ([], cart1, g1)) = run_roles env sc rs (new1, cart1, g1)"
      by (rule Cons.IH [symmetric])
    also have "run_roles env sc rs (new1, cart1, g1) = run_roles env sc (r # rs) ([], cart, g)"
      using Inr st by simp
    finally show ?thesis .
  qed
qed

lemma emit_onto_eq_Inr:
  "emit_onto events r = Inr (events', rest) \<longleftrightarrow> (\<exists>new. r = Inr (new, rest) \<and> events' = events @ new)"
  by (cases r) auto

lemma run_candidates_ids:
  "run_candidates env sc ap noise cs ([], cart, g) = Inr (new, cart', g')
     \<Longrightarrow> map ev_candidate_item_id new = cs"
proof (induction cs arbitrary: new cart g)
  case Nil
  then show ?case by simp
next
  case (Cons c cs)
  from Cons.prems obtain st where s1: "candidate_step env sc ap noise c ([], cart, g) = Inr st"
    and s2: "run_candidates env sc ap noise cs st = Inr (new, cart', g')"
    by (auto simp: ebind_eq_Inr)
  obtain e1 cart1 g1 where st: "st = (e1, cart1, g1)" by (cases st) auto
  obtain it ev where ev: "make_event env sc cart c it
       (if fst (rng_random env g) < candidate_accept ap c noise it (sc_user sc) (sc_meal_time sc)
        then 1 else 0) = Inr ev" and e1: "e1 = [ev]"
    using s1 unfolding candidate_step_unfold st by (auto simp: ebind_eq_Inr)
  obtain new2 where n2: "run_candidates env sc ap noise cs ([], cart1, g1) = Inr (new2, cart', g')"
    and new: "new = e1 @ new2"
    using s2 unfolding st run_candidates_onto [of _ _ _ _ _ e1] by (auto simp: emit_onto_eq_Inr)
  show ?case using Cons.IH [OF n2] new e1 make_event_fields(2) [OF ev] by simp
qed

lemma run_role_ids:
  assumes "run_role env sc role ([], cart, g) = Inr (new, cart', g')"
  shows "map ev_candidate_item_id new = role_candidates env sc role cart g"
proof (cases "role_items_of (sc_template sc) role = []")
  case True
  then show ?thesis using assms by (simp add: run_role_def role_candidates_def)
next
  case False
  then show ?thesis
    using assms
    by (auto simp: run_role_def role_candidates_def Let_def ebind_eq_Inr dest: run_candidates_ids)
qed

lemma run_role_skipped:
  "role_items_of (sc_template sc) role = [] \<Longrightarrow> run_role env sc role st = Inr st"
  by (cases st) (simp add: run_role_def)

text \<open>
  C9: the events a session emits are the events of the complement role, then those of the
  addon role, then those of the finisher role; each role's body runs once, on the cart and
  generator its predecessor left, its events carry the candidates of that role's list in
  order, and a role whose template list is empty emits nothing and changes nothing.
\<close>

theorem role_order:
  assumes "run_roles env sc [''complement'', ''addon'', ''finisher''] (events, cart, g)
             = Inr (events', cart', g')"
  shows "\<exists>ec ea ef cart1 g1 cart2 g2.
           run_role env sc ''complement'' ([], cart, g) = Inr (ec, cart1, g1)
         \<and> run_role env sc ''addon'' ([], cart1, g1) = Inr (ea, cart2, g2)
         \<and> run_role env sc ''finisher'' ([], cart2, g2) = Inr (ef, cart', g')
         \<and> events' = events @ ec @ ea @ ef
         \<and> map ev_candidate_item_id ec = role_candidates env sc ''complement'' cart g
         \<and> map ev_candidate_item_id ea = role_candidates env sc ''addon'' cart1 g1
         \<and> map ev_candidate_item_id ef = role_candidates env sc ''finisher'' cart2 g2
         \<and> (complements (sc_template sc) = [] \<longrightarrow> ec = [] \<and> cart1 = cart \<and> g1 = g)
         \<and> (addons (sc_template sc) = [] \<longrightarrow> ea = [] \<and> cart2 = cart1 \<and> g2 = g1)
         \<and> (finishers (sc_template sc) = [] \<longrightarrow> ef = [] \<and> cart' = cart2 \<and> g' = g2)"
proof -
  from assms obtain s1 s2 where
    r1: "run_role env sc ''complement'' (events, cart, g) = Inr s1"
    and r2: "run_role env sc ''addon'' s1 = Inr s2"
    and r3: "run_role env sc ''finisher'' s2 = Inr (events', cart', g')"
    by (auto simp: ebind_eq_Inr)
  obtain e1 cart1 g1 where s1: "s1 = (e1, cart1, g1)" by (cases s1) auto
  obtain e2 cart2 g2 where s2: "s2 = (e2, cart2, g2)" by (cases s2) auto
  obtain ec where c: "run_role env sc ''complement'' ([], cart, g) = Inr (ec, cart1, g1)"
    and e1: "e1 = events @ ec"
    using r1 unfolding s1 run_role_onto [of _ _ _ events] by (auto simp: emit_onto_eq_Inr)
  obtain ea where a: "run_role env sc ''addon'' ([], cart1, g1) = Inr (ea, cart2, g2)"
    and e2: "e2 = e1 @ ea"
    using r2 unfolding s1 s2 run_role_onto [of _ _ _ e1] by (auto simp: emit_onto_eq_Inr)
  obtain ef where f: "run_role env sc ''finisher'' ([], cart2, g2) = Inr (ef, cart', g')"
    and e3: "events' = e2 @ ef"
    using r3 unfolding s2 run_role_onto [of _ _ _ e2] by (auto simp: emit_onto_eq_Inr)
  have sk: "\<And>role cart g new cart' g'.
      role_items_of (sc_template sc) role = [] \<Longrightarrow>
      run_role env sc role ([], cart, g) = Inr (new, cart', g') \<Longrightarrow> new = [] \<and> cart' = cart \<and> g' = g"
    by (simp add: run_role_skipped)
  have "complements (sc_template sc) = [] \<longrightarrow> ec = [] \<and> cart1 = cart \<and> g1 = g"
    using sk [OF _ c] by (simp add: role_items_of_def)
  moreover have "addons (sc_template sc) = [] \<longrightarrow> ea = [] \<and> cart2 = cart1 \<and> g2 = g1"
    using sk [OF _ a] by (simp add: role_items_of_def)
  moreover have "finishers (sc_template sc) = [] \<longrightarrow> ef = [] \<and> cart' = cart2 \<and> g' = g2"
    using sk [OF _ f] by (simp add: role_items_of_def)
  ultimately show ?thesis
    using c a f e1 e2 e3 run_role_ids [OF c] run_role_ids [OF a] run_role_ids [OF f]
    by (intro exI [of _ ec] exI [of _ ea] exI [of _ ef] exI [of _ cart1] exI [of _ g1]
        exI [of _ cart2] exI [of _ g2]) simp
qed

theorem role_order_witness:
  "snd (projr (run_roles (tape_runtime remdups) ctx_1 [''complement'', ''addon'', ''finisher'']
                 ([], [''ITEM_003''], [0, 10, 90, 90, 90, 0, 90])))
     = ([''ITEM_003'', ''ITEM_035''], [])
   \<and> map ev_candidate_item_id
        (fst (projr (run_roles (tape_runtime remdups) ctx_1 [''complement'', ''addon'', ''finisher'']
                       ([], [''ITEM_003''], [0, 10, 90, 90, 90, 0, 90]))))
     = [''ITEM_035'', ''ITEM_050''] @ [''ITEM_050''] @ [''ITEM_050'']
   \<and> role_candidates (tape_runtime remdups) ctx_1 ''complement'' [''ITEM_003''] [0, 10, 90, 90, 90, 0, 90]
     = [''ITEM_035'', ''ITEM_050'']"
proof -
  let ?E = "tape_runtime remdups"
  let ?g = "[0, 10, 90, 90, 90, 0, 90] :: nat list"
  let ?r = "run_roles ?E ctx_1 [''complement'', ''addon'', ''finisher''] ([], [''ITEM_003''], ?g)"
  have h: "?r = Inr (fst (projr ?r), [''ITEM_003'', ''ITEM_035''], [])" by code_simp
  have c1: "map_sum id snd (run_role ?E ctx_1 ''complement'' ([], [''ITEM_003''], ?g))
              = Inr ([''ITEM_003'', ''ITEM_035''], [90, 90, 0, 90])" by code_simp
  have c2: "map_sum id snd (run_role ?E ctx_1 ''addon'' ([], [''ITEM_003'', ''ITEM_035''], [90, 90, 0, 90]))
              = Inr ([''ITEM_003'', ''ITEM_035''], [0, 90])" by code_simp
  have k1: "role_candidates ?E ctx_1 ''complement'' [''ITEM_003''] ?g = [''ITEM_035'', ''ITEM_050'']"
    by code_simp
  have k2: "role_candidates ?E ctx_1 ''addon'' [''ITEM_003'', ''ITEM_035''] [90, 90, 0, 90] = [''ITEM_050'']"
    by code_simp
  have k3: "role_candidates ?E ctx_1 ''finisher'' [''ITEM_003'', ''ITEM_035''] [0, 90] = [''ITEM_050'']"
    by code_simp
  from role_order [OF h]
  obtain ec ea ef cart1 g1 cart2 g2 where
    r1: "run_role ?E ctx_1 ''complement'' ([], [''ITEM_003''], ?g) = Inr (ec, cart1, g1)"
    and r2: "run_role ?E ctx_1 ''addon'' ([], cart1, g1) = Inr (ea, cart2, g2)"
    and ev: "fst (projr ?r) = [] @ ec @ ea @ ef"
    and i1: "map ev_candidate_item_id ec = role_candidates ?E ctx_1 ''complement'' [''ITEM_003''] ?g"
    and i2: "map ev_candidate_item_id ea = role_candidates ?E ctx_1 ''addon'' cart1 g1"
    and i3: "map ev_candidate_item_id ef = role_candidates ?E ctx_1 ''finisher'' cart2 g2"
    by blast
  have s1: "cart1 = [''ITEM_003'', ''ITEM_035'']" "g1 = [90, 90, 0, 90]"
    using c1 unfolding r1 by simp_all
  have s2: "cart2 = [''ITEM_003'', ''ITEM_035'']" "g2 = [0, 90]"
    using c2 r2 unfolding s1 by simp_all
  have "map ev_candidate_item_id (fst (projr ?r))
          = [''ITEM_035'', ''ITEM_050''] @ [''ITEM_050''] @ [''ITEM_050'']"
    unfolding ev using i1 i2 i3 unfolding s1 s2 k1 k2 k3 by simp
  moreover have "snd (projr ?r) = ([''ITEM_003'', ''ITEM_035''], [])"
    by (subst h) simp
  ultimately show ?thesis using k1 by simp
qed

text \<open>
  The role of an event here is the role of the loop that emitted it. The event itself
  records \<open>candidate_meal_role\<close>, the catalog's role of the candidate, which does not
  follow this order: a noise candidate of any catalog role can be evaluated in any loop.
\<close>

lemma recorded_meal_role_is_not_the_loop_role:
  "map ev_candidate_meal_role
     (projr (generate_sessions (tape_runtime remdups) [user_1] catalog_4 30 start_2025
               [3, 10, 2, 0, 0, 50, 0, 10, 90, 90, 1, 20, 90, 90, 90]))
     = [''addon'', ''addon'', ''finisher'', ''addon'', ''finisher'', ''finisher'']"
  by code_simp

section \<open>Every candidate of a role starts from the role's value\<close>

lemma run_candidates_labels:
  assumes "run_candidates env sc ap noise cs ([], cart, g) = Inr (new, cart', g')"
  shows "map ev_candidate_item_id new = cs
       \<and> (\<forall>i<length cs.
            ev_candidate_accepted (new ! i)
              = (if fst (rng_random env (draw_state env g i))
                      < candidate_accept ap (cs ! i) noise (the (sc_item_lookup sc (cs ! i)))
                          (sc_user sc) (sc_meal_time sc)
                 then 1 else 0))"
  using assms
proof (induction cs arbitrary: new cart g)
  case Nil
  then show ?case by simp
next
  case (Cons c cs)
  from Cons.prems obtain st where s1: "candidate_step env sc ap noise c ([], cart, g) = Inr st"
    and s2: "run_candidates env sc ap noise cs st = Inr (new, cart', g')"
    by (auto simp: ebind_eq_Inr)
  obtain e1 cart1 g1 where st: "st = (e1, cart1, g1)" by (cases st) auto
  obtain it ev where it: "get_item (sc_item_lookup sc) c = Inr it"
    and ev: "make_event env sc cart c it
               (if fst (rng_random env g) < candidate_accept ap c noise it (sc_user sc) (sc_meal_time sc)
                then 1 else 0) = Inr ev"
    and res: "e1 = [ev]" "g1 = snd (rng_random env g)"
    using s1 unfolding st candidate_step_unfold by (auto simp: ebind_eq_Inr)
  have lk: "sc_item_lookup sc c = Some it"
    using it by (simp add: get_item_def split: option.splits)
  note f = make_event_fields [OF ev]
  obtain new2 where n2: "run_candidates env sc ap noise cs ([], cart1, g1) = Inr (new2, cart', g')"
    and new: "new = e1 @ new2"
    using s2 unfolding st run_candidates_onto [of _ _ _ _ _ e1] by (auto simp: emit_onto_eq_Inr)
  note ih = Cons.IH [OF n2]
  have ids: "map ev_candidate_item_id new = c # cs"
    using ih f(2) new res(1) by simp
  have lab: "ev_candidate_accepted (new ! i)
              = (if fst (rng_random env (draw_state env g i))
                      < candidate_accept ap ((c # cs) ! i) noise (the (sc_item_lookup sc ((c # cs) ! i)))
                          (sc_user sc) (sc_meal_time sc)
                 then 1 else 0)" if "i < length (c # cs)" for i
  proof (cases i)
    case 0
    then show ?thesis using f(1) new res(1) lk by simp
  next
    case (Suc j)
    then have "j < length cs" using that by simp
    with ih show ?thesis using Suc new res by simp
  qed
  show ?case using ids lab by blast
qed

text \<open>
  C2: for a template of \<open>MEAL_TEMPLATES\<close>, one of the three roles and a user of one of
  the three segments, the value computed before the candidate loop (once: it does not
  depend on the candidate) is the template's completion probability for the role times the
  segment multiplier (0.7, 1.0, 1.3), times 1.15 on a weekend, clamped to at most 0.95 (the
  code clamps twice, which gives the same value). When the role is entered and its loop
  completes, it has appended one event for each candidate of the role, template candidates
  first and noise candidates after them, in order; the label of the i-th of these events
  is 1 exactly when the i-th uniform draw after the noise sample is below the probability
  that the modifiers of lines 597-612 give for that candidate when they start from this
  same value.
\<close>

theorem role_accept_prob_spec:
  assumes "(tname, sc_template sc) \<in> set MEAL_TEMPLATES"
    and "role \<in> {''complement'', ''addon'', ''finisher''}"
    and "segment (sc_user sc) \<in> {''new'', ''regular'', ''power''}"
  shows "\<exists>completion.
           map_of (completion_prob (sc_template sc)) role = Some completion
         \<and> role_accept_prob (sc_template sc) (sc_user sc) (sc_timestamp sc) role
             = Inr (spec_role_prob completion (segment (sc_user sc))
                      (weekday (sc_timestamp sc) \<ge> 5))
         \<and> (role_items_of (sc_template sc) role \<noteq> [] \<longrightarrow>
              run_role env sc role (events, cart, g) =
                ebind (np_choice_noreplace env
                         (noise_pool_of sc cart
                            (valid_candidates_of sc (role_items_of (sc_template sc) role) cart))
                         (noise_size_of sc cart
                            (valid_candidates_of sc (role_items_of (sc_template sc) role) cart)) g)
                  (\<lambda>(noise_candidates, g1).
                     run_candidates env sc
                       (spec_role_prob completion (segment (sc_user sc))
                          (weekday (sc_timestamp sc) \<ge> 5))
                       noise_candidates
                       (valid_candidates_of sc (role_items_of (sc_template sc) role) cart
                          @ noise_candidates)
                       (events, cart, g1)))
         \<and> (\<forall>events' cart' g'.
              role_items_of (sc_template sc) role \<noteq> []
              \<and> run_role env sc role (events, cart, g) = Inr (events', cart', g') \<longrightarrow>
              (\<exists>noise_candidates g1 new.
                 np_choice_noreplace env
                   (noise_pool_of sc cart
                      (valid_candidates_of sc (role_items_of (sc_template sc) role) cart))
                   (noise_size_of sc cart
                      (valid_candidates_of sc (role_items_of (sc_template sc) role) cart)) g
                   = Inr (noise_candidates, g1)
               \<and> events' = events @ new
               \<and> map ev_candidate_item_id new
                   = valid_candidates_of sc (role_items_of (sc_template sc) role) cart
                       @ noise_candidates
               \<and> (\<forall>i < length new.
                    ev_candidate_accepted (new ! i)
                      = (if fst (rng_random env (draw_state env g1 i))
                              < candidate_accept
                                  (spec_role_prob completion (segment (sc_user sc))
                                     (weekday (sc_timestamp sc) \<ge> 5))
                                  (ev_candidate_item_id (new ! i)) noise_candidates
                                  (the (sc_item_lookup sc (ev_candidate_item_id (new ! i))))
                                  (sc_user sc) (sc_meal_time sc)
                         then 1 else 0))))"
proof -
  let ?valid = "valid_candidates_of sc (role_items_of (sc_template sc) role) cart"
  obtain c where c: "map_of (completion_prob (sc_template sc)) role = Some c"
    using template_completion_keys [OF assms(1,2)] by auto
  let ?ap = "spec_role_prob c (segment (sc_user sc)) (weekday (sc_timestamp sc) \<ge> 5)"
  have r: "role_accept_prob (sc_template sc) (sc_user sc) (sc_timestamp sc) role = Inr ?ap"
    using c segment_multiplier_known [OF assms(3)]
    by (simp add: role_accept_prob_unfold clamp_weekend_once base_accept_prob_of_def
        spec_role_prob_def)
  have e: "role_items_of (sc_template sc) role \<noteq> [] \<longrightarrow>
             run_role env sc role (events, cart, g) =
               ebind (np_choice_noreplace env (noise_pool_of sc cart ?valid)
                        (noise_size_of sc cart ?valid) g)
                 (\<lambda>(noise_candidates, g1).
                    run_candidates env sc ?ap noise_candidates (?valid @ noise_candidates)
                      (events, cart, g1))"
    using run_role_entered [OF _ r] by (rule impI)
  have l: "\<forall>events' cart' g'.
             role_items_of (sc_template sc) role \<noteq> []
             \<and> run_role env sc role (events, cart, g) = Inr (events', cart', g') \<longrightarrow>
             (\<exists>noise_candidates g1 new.
                np_choice_noreplace env (noise_pool_of sc cart ?valid)
                  (noise_size_of sc cart ?valid) g = Inr (noise_candidates, g1)
              \<and> events' = events @ new
              \<and> map ev_candidate_item_id new = ?valid @ noise_candidates
              \<and> (\<forall>i < length new.
                   ev_candidate_accepted (new ! i)
                     = (if fst (rng_random env (draw_state env g1 i))
                             < candidate_accept ?ap (ev_candidate_item_id (new ! i)) noise_candidates
                                 (the (sc_item_lookup sc (ev_candidate_item_id (new ! i))))
                                 (sc_user sc) (sc_meal_time sc)
                        then 1 else 0)))"
  proof (intro allI impI, elim conjE)
    fix events' cart' g'
    assume ne: "role_items_of (sc_template sc) role \<noteq> []"
      and run: "run_role env sc role (events, cart, g) = Inr (events', cart', g')"
    from run obtain noise g1 where
      n: "np_choice_noreplace env (noise_pool_of sc cart ?valid) (noise_size_of sc cart ?valid) g
            = Inr (noise, g1)"
      and rc: "run_candidates env sc ?ap noise (?valid @ noise) (events, cart, g1)
                 = Inr (events', cart', g')"
      unfolding run_role_entered [OF ne r] by (auto simp: ebind_eq_Inr)
    from rc obtain new where
      rn: "run_candidates env sc ?ap noise (?valid @ noise) ([], cart, g1) = Inr (new, cart', g')"
      and ev: "events' = events @ new"
      unfolding run_candidates_onto [of _ _ _ _ _ events] by (auto simp: emit_onto_eq_Inr)
    note lab = run_candidates_labels [OF rn]
    have ids: "map ev_candidate_item_id new = ?valid @ noise" using lab by simp
    then have len: "length new = length (?valid @ noise)" by (metis length_map)
    have nth: "ev_candidate_item_id (new ! i) = (?valid @ noise) ! i" if "i < length new" for i
      using that ids by (metis nth_map)
    have "\<forall>i < length new.
            ev_candidate_accepted (new ! i)
              = (if fst (rng_random env (draw_state env g1 i))
                      < candidate_accept ?ap (ev_candidate_item_id (new ! i)) noise
                          (the (sc_item_lookup sc (ev_candidate_item_id (new ! i))))
                          (sc_user sc) (sc_meal_time sc)
                 then 1 else 0)"
      using lab len nth by simp
    with n ev ids show "\<exists>noise_candidates g1 new.
                np_choice_noreplace env (noise_pool_of sc cart ?valid)
                  (noise_size_of sc cart ?valid) g = Inr (noise_candidates, g1)
              \<and> events' = events @ new
              \<and> map ev_candidate_item_id new = ?valid @ noise_candidates
              \<and> (\<forall>i < length new.
                   ev_candidate_accepted (new ! i)
                     = (if fst (rng_random env (draw_state env g1 i))
                             < candidate_accept ?ap (ev_candidate_item_id (new ! i)) noise_candidates
                                 (the (sc_item_lookup sc (ev_candidate_item_id (new ! i))))
                                 (sc_user sc) (sc_meal_time sc)
                        then 1 else 0))"
      by blast
  qed
  show ?thesis
    by (rule exI [of _ c]) (intro conjI c r e l)
qed


theorem role_accept_prob_spec_witness:
  "(''biryani_meal'', sc_template ctx_1) \<in> set MEAL_TEMPLATES
   \<and> ''complement'' \<in> {''complement'', ''addon'', ''finisher''}
   \<and> segment (sc_user ctx_1) \<in> {''new'', ''regular'', ''power''}
   \<and> weekday (sc_timestamp ctx_1) = 5
   \<and> role_accept_prob (sc_template ctx_1) (sc_user ctx_1) (sc_timestamp ctx_1) ''complement''
        = Inr 0.7475
   \<and> role_items_of (sc_template ctx_1) ''complement'' \<noteq> []
   \<and> snd (projr (run_role (tape_runtime remdups) ctx_1 ''complement''
                    ([], [''ITEM_003''], [0, 10, 90])))
        = ([''ITEM_003'', ''ITEM_035''], [])
   \<and> map ev_candidate_item_id
        (fst (projr (run_role (tape_runtime remdups) ctx_1 ''complement''
                       ([], [''ITEM_003''], [0, 10, 90])))) = [''ITEM_035'', ''ITEM_050'']
   \<and> candidate_accept 0.7475 ''ITEM_035'' [''ITEM_050''] ITEM_035 user_1 ''lunch'' = 0.7475
   \<and> candidate_accept 0.7475 ''ITEM_050'' [''ITEM_050''] ITEM_050 user_1 ''lunch'' = 0.0598
   \<and> map ev_candidate_accepted
        (fst (projr (run_role (tape_runtime remdups) ctx_1 ''complement''
                       ([], [''ITEM_003''], [0, 10, 90])))) = [1, 0]"
proof -
  let ?E = "tape_runtime remdups"
  let ?r = "run_role ?E ctx_1 ''complement'' ([], [''ITEM_003''], [0, 10, 90])"
  let ?valid = "valid_candidates_of ctx_1 (role_items_of (sc_template ctx_1) ''complement'')
                  [''ITEM_003'']"
  have h1: "(''biryani_meal'', sc_template ctx_1) \<in> set MEAL_TEMPLATES" by code_simp
  have h2: "''complement'' \<in> {''complement'', ''addon'', ''finisher''}" by simp
  have h3: "segment (sc_user ctx_1) \<in> {''new'', ''regular'', ''power''}" by code_simp
  have w: "weekday (sc_timestamp ctx_1) = 5" by code_simp
  have c: "map_of (completion_prob (sc_template ctx_1)) ''complement'' = Some 0.65" by code_simp
  have s: "spec_role_prob 0.65 (segment (sc_user ctx_1)) (weekday (sc_timestamp ctx_1) \<ge> 5) = 0.7475"
    by code_simp
  have ne: "role_items_of (sc_template ctx_1) ''complement'' \<noteq> []" by code_simp
  have hr: "?r = Inr (fst (projr ?r), [''ITEM_003'', ''ITEM_035''], [])" by code_simp
  have v: "?valid = [''ITEM_035'']" by code_simp
  have nc: "np_choice_noreplace ?E (noise_pool_of ctx_1 [''ITEM_003''] ?valid)
              (noise_size_of ctx_1 [''ITEM_003''] ?valid) [0, 10, 90]
              = Inr ([''ITEM_050''], [10, 90])" by code_simp
  have p0: "candidate_accept 0.7475 ''ITEM_035'' [''ITEM_050''] ITEM_035 user_1 ''lunch'' = 0.7475"
    by code_simp
  have p1: "candidate_accept 0.7475 ''ITEM_050'' [''ITEM_050''] ITEM_050 user_1 ''lunch'' = 0.0598"
    by code_simp
  have cx: "sc_user ctx_1 = user_1" "sc_meal_time ctx_1 = ''lunch''"
    by code_simp+
  have b0: "fst (rng_random ?E (draw_state ?E [10, 90] 0))
              < candidate_accept
                  (spec_role_prob 0.65 (segment (sc_user ctx_1)) (weekday (sc_timestamp ctx_1) \<ge> 5))
                  ''ITEM_035'' [''ITEM_050''] (the (sc_item_lookup ctx_1 ''ITEM_035''))
                  (sc_user ctx_1) (sc_meal_time ctx_1)" by code_simp
  have b1: "\<not> fst (rng_random ?E (draw_state ?E [10, 90] 1))
              < candidate_accept
                  (spec_role_prob 0.65 (segment (sc_user ctx_1)) (weekday (sc_timestamp ctx_1) \<ge> 5))
                  ''ITEM_050'' [''ITEM_050''] (the (sc_item_lookup ctx_1 ''ITEM_050''))
                  (sc_user ctx_1) (sc_meal_time ctx_1)" by code_simp
  from role_accept_prob_spec
         [OF h1 h2 h3, where env = "tape_runtime remdups" and events = "[]"
            and cart = "[''ITEM_003'']" and g = "[0, 10, 90]"]
  obtain completion where a: "map_of (completion_prob (sc_template ctx_1)) ''complement'' = Some completion"
    and b: "role_accept_prob (sc_template ctx_1) (sc_user ctx_1) (sc_timestamp ctx_1) ''complement''
              = Inr (spec_role_prob completion (segment (sc_user ctx_1))
                       (weekday (sc_timestamp ctx_1) \<ge> 5))"
    and d: "\<forall>events' cart' g'.
              role_items_of (sc_template ctx_1) ''complement'' \<noteq> []
              \<and> ?r = Inr (events', cart', g') \<longrightarrow>
              (\<exists>noise_candidates g1 new.
                 np_choice_noreplace ?E (noise_pool_of ctx_1 [''ITEM_003''] ?valid)
                   (noise_size_of ctx_1 [''ITEM_003''] ?valid) [0, 10, 90]
                   = Inr (noise_candidates, g1)
               \<and> events' = [] @ new
               \<and> map ev_candidate_item_id new = ?valid @ noise_candidates
               \<and> (\<forall>i < length new.
                    ev_candidate_accepted (new ! i)
                      = (if fst (rng_random ?E (draw_state ?E g1 i))
                              < candidate_accept
                                  (spec_role_prob completion (segment (sc_user ctx_1))
                                     (weekday (sc_timestamp ctx_1) \<ge> 5))
                                  (ev_candidate_item_id (new ! i)) noise_candidates
                                  (the (sc_item_lookup ctx_1 (ev_candidate_item_id (new ! i))))
                                  (sc_user ctx_1) (sc_meal_time ctx_1)
                         then 1 else 0)))"
    by (elim exE conjE)
  have e: "completion = 0.65" using a unfolding c by simp
  have rp: "role_accept_prob (sc_template ctx_1) (sc_user ctx_1) (sc_timestamp ctx_1) ''complement''
          = Inr 0.7475" using b unfolding e s .
  from d [rule_format, OF conjI [OF ne hr]] obtain noise g1 new where
    n: "np_choice_noreplace ?E (noise_pool_of ctx_1 [''ITEM_003''] ?valid)
          (noise_size_of ctx_1 [''ITEM_003''] ?valid) [0, 10, 90] = Inr (noise, g1)"
    and ev: "fst (projr ?r) = [] @ new"
    and ids: "map ev_candidate_item_id new = ?valid @ noise"
    and lab: "\<forall>i < length new.
                ev_candidate_accepted (new ! i)
                  = (if fst (rng_random ?E (draw_state ?E g1 i))
                          < candidate_accept
                              (spec_role_prob completion (segment (sc_user ctx_1))
                                 (weekday (sc_timestamp ctx_1) \<ge> 5))
                              (ev_candidate_item_id (new ! i)) noise
                              (the (sc_item_lookup ctx_1 (ev_candidate_item_id (new ! i))))
                              (sc_user ctx_1) (sc_meal_time ctx_1)
                     then 1 else 0)"
    by blast
  have ng: "noise = [''ITEM_050'']" "g1 = [10, 90]" using n unfolding nc by simp_all
  have ids2: "map ev_candidate_item_id new = [''ITEM_035'', ''ITEM_050'']"
    using ids unfolding v ng by simp
  then obtain x y where xy: "new = [x, y]" by auto
  have len: "0 < length new" "1 < length new" unfolding xy by simp_all
  have i0: "ev_candidate_item_id (new ! 0) = ''ITEM_035''"
    and i1: "ev_candidate_item_id (new ! 1) = ''ITEM_050''"
    using ids2 unfolding xy by simp_all
  have l0: "ev_candidate_accepted (new ! 0) = 1"
    unfolding lab [rule_format, OF len(1)] i0 ng e by (rule if_P) (rule b0)
  have l1: "ev_candidate_accepted (new ! 1) = 0"
    unfolding lab [rule_format, OF len(2)] i1 ng e by (rule if_not_P) (rule b1)
  have labels: "map ev_candidate_accepted (fst (projr ?r)) = [1, 0]"
    using l0 l1 unfolding ev xy by simp
  have idsr: "map ev_candidate_item_id (fst (projr ?r)) = [''ITEM_035'', ''ITEM_050'']"
    unfolding ev using ids2 by simp
  have sr: "snd (projr ?r) = ([''ITEM_003'', ''ITEM_035''], [])" by (subst hr) simp
  show ?thesis by (intro conjI h1 h2 h3 w rp ne sr idsr p0 p1 labels)
qed

section \<open>Candidates are never in the cart\<close>

lemma candidate_step_Inr:
  assumes "candidate_step env sc ap noise c (events, cart, g) = Inr (events', cart', g')"
  shows "\<exists>it ev. sc_item_lookup sc c = Some it
           \<and> make_event env sc cart c it (ev_candidate_accepted ev) = Inr ev
           \<and> events' = events @ [ev]
           \<and> cart' = (if ev_candidate_accepted ev = 1 then cart @ [c] else cart)
           \<and> g' = snd (rng_random env g)"
proof -
  obtain it ev where it: "get_item (sc_item_lookup sc) c = Inr it"
    and ev: "make_event env sc cart c it
               (if fst (rng_random env g) < candidate_accept ap c noise it (sc_user sc) (sc_meal_time sc)
                then 1 else 0) = Inr ev"
    and res: "events' = events @ [ev]" "g' = snd (rng_random env g)"
      "cart' = (if ev_candidate_accepted ev = 1 then cart @ [c] else cart)"
    using assms unfolding candidate_step_unfold by (auto simp: ebind_eq_Inr)
  have lk: "sc_item_lookup sc c = Some it"
    using it by (simp add: get_item_def split: option.splits)
  have "make_event env sc cart c it (ev_candidate_accepted ev) = Inr ev"
    using ev make_event_fields(1) [OF ev] by simp
  with lk res show ?thesis by blast
qed

lemma candidate_step_ok:
  assumes "candidate_step env sc ap noise c (events, cart, g) = Inr (events', cart', g')"
    and "c \<notin> set cart" and "distinct cart" and "list_all event_ok events"
  shows "list_all event_ok events' \<and> distinct cart' \<and> set cart \<subseteq> set cart'
         \<and> set cart' \<subseteq> insert c (set cart)"
proof -
  from candidate_step_Inr [OF assms(1)] obtain it ev where
    ev: "make_event env sc cart c it (ev_candidate_accepted ev) = Inr ev"
    and res: "events' = events @ [ev]"
      "cart' = (if ev_candidate_accepted ev = 1 then cart @ [c] else cart)"
    by blast
  have "event_ok ev"
    using make_event_fields(2,3) [OF ev] assms(2,3) by (simp add: event_ok_def)
  then show ?thesis using res assms(2,3,4) by auto
qed

lemma run_candidates_ok:
  assumes "run_candidates env sc ap noise cs (events, cart, g) = Inr (events', cart', g')"
    and "distinct cs" and "set cs \<inter> set cart = {}" and "distinct cart"
    and "list_all event_ok events"
  shows "list_all event_ok events' \<and> distinct cart' \<and> set cart \<subseteq> set cart'
         \<and> set cart' \<subseteq> set cart \<union> set cs"
  using assms
proof (induction cs arbitrary: events cart g)
  case Nil
  then show ?case by simp
next
  case (Cons c cs)
  from Cons.prems(1) obtain st where s1: "candidate_step env sc ap noise c (events, cart, g) = Inr st"
    and s2: "run_candidates env sc ap noise cs st = Inr (events', cart', g')"
    by (auto simp: ebind_eq_Inr)
  obtain e1 cart1 g1 where st: "st = (e1, cart1, g1)" by (cases st) auto
  have c: "c \<notin> set cart" using Cons.prems(3) by auto
  note k = candidate_step_ok [OF s1 [unfolded st] c Cons.prems(4) Cons.prems(5)]
  have d: "distinct cs" using Cons.prems(2) by simp
  have dj: "set cs \<inter> set cart1 = {}"
    using k Cons.prems(2,3) by auto
  from Cons.IH [OF s2 [unfolded st] d dj] k
  have "list_all event_ok events' \<and> distinct cart' \<and> set cart1 \<subseteq> set cart'
        \<and> set cart' \<subseteq> set cart1 \<union> set cs" by simp
  with k show ?case by auto
qed

lemma templates_distinct:
  "list_all (\<lambda>nt. distinct (complements (snd nt)) \<and> distinct (addons (snd nt))
                   \<and> distinct (finishers (snd nt))) MEAL_TEMPLATES"
  by code_simp

lemma template_role_items_distinct:
  assumes "(tname, t) \<in> set MEAL_TEMPLATES"
    and "role \<in> {''complement'', ''addon'', ''finisher''}"
  shows "distinct (role_items_of t role)"
proof -
  have "distinct (complements t) \<and> distinct (addons t) \<and> distinct (finishers t)"
    using templates_distinct assms(1) unfolding list_all_iff by fastforce
  then show ?thesis using assms(2) by (auto simp: role_items_of_def)
qed

lemma run_role_ok:
  assumes "rng_contract env" and "distinct (sc_all_item_ids sc)"
    and "distinct (role_items_of (sc_template sc) role)"
    and "run_role env sc role (events, cart, g) = Inr (events', cart', g')"
    and "distinct cart" and "list_all event_ok events"
  shows "list_all event_ok events' \<and> distinct cart' \<and> set cart \<subseteq> set cart'"
proof (cases "role_items_of (sc_template sc) role = []")
  case True
  then show ?thesis using assms(4,5,6) by (simp add: run_role_def)
next
  case False
  let ?valid = "valid_candidates_of sc (role_items_of (sc_template sc) role) cart"
  from assms(4) False obtain ap noise g1 where
    n: "np_choice_noreplace env (noise_pool_of sc cart ?valid) (noise_size_of sc cart ?valid) g
          = Inr (noise, g1)"
    and r: "run_candidates env sc ap noise (?valid @ noise) (events, cart, g1) = Inr (events', cart', g')"
    by (auto simp: run_role_def Let_def ebind_eq_Inr)
  note p = noise_candidates_from_pool [OF assms(1,2) n]
  have dv: "distinct ?valid" using assms(3) by (simp add: valid_candidates_of_def)
  have vc: "set ?valid \<inter> set cart = {}" by (auto simp: valid_candidates_of_def)
  have d: "distinct (?valid @ noise)" using dv p by auto
  have dj: "set (?valid @ noise) \<inter> set cart = {}" using vc p by auto
  from run_candidates_ok [OF r d dj assms(5,6)] show ?thesis by simp
qed

lemma run_roles_ok:
  assumes "rng_contract env" and "distinct (sc_all_item_ids sc)"
    and "\<forall>role \<in> set roles. distinct (role_items_of (sc_template sc) role)"
    and "run_roles env sc roles (events, cart, g) = Inr (events', cart', g')"
    and "distinct cart" and "list_all event_ok events"
  shows "list_all event_ok events' \<and> distinct cart' \<and> set cart \<subseteq> set cart'"
  using assms(3-)
proof (induction roles arbitrary: events cart g)
  case Nil
  then show ?case by simp
next
  case (Cons role roles)
  from Cons.prems(2) obtain st where s1: "run_role env sc role (events, cart, g) = Inr st"
    and s2: "run_roles env sc roles st = Inr (events', cart', g')"
    by (auto simp: ebind_eq_Inr)
  obtain e1 cart1 g1 where st: "st = (e1, cart1, g1)" by (cases st) auto
  have dr: "distinct (role_items_of (sc_template sc) role)" using Cons.prems(1) by simp
  note k = run_role_ok [OF assms(1,2) dr s1 [unfolded st] Cons.prems(3,4)]
  have rest: "\<forall>role \<in> set roles. distinct (role_items_of (sc_template sc) role)"
    using Cons.prems(1) by simp
  from Cons.IH [OF rest s2 [unfolded st]] k show ?case by auto
qed

lemma map_mark_last_abandoned:
  assumes "\<And>e. f (e\<lparr>ev_is_abandoned := 1\<rparr>) = f e"
  shows "map f (mark_last_abandoned events) = map f events"
proof -
  let ?k = "length events - 1"
  have "map f (mark_last_abandoned events)
          = (map f events)[?k := f ((events ! ?k)\<lparr>ev_is_abandoned := 1\<rparr>)]"
    by (simp only: mark_last_abandoned_def map_update)
  also have "\<dots> = (map f events)[?k := f (events ! ?k)]"
    by (simp only: assms)
  also have "\<dots> = map f events"
  proof (cases "events = []")
    case True
    then show ?thesis by simp
  next
    case False
    then have "f (events ! ?k) = map f events ! ?k" by simp
    then show ?thesis by (simp only: list_update_id)
  qed
  finally show ?thesis .
qed

lemma event_ok_mark_last_abandoned:
  "list_all event_ok (mark_last_abandoned events) = list_all event_ok events"
proof -
  have "map event_ok (mark_last_abandoned events) = map event_ok events"
    by (rule map_mark_last_abandoned) (simp add: event_ok_def)
  then have "list_all id (map event_ok (mark_last_abandoned events)) = list_all id (map event_ok events)"
    by simp
  then show ?thesis by (simp add: list_all_iff)
qed

lemma finish_session_cases:
  "fst (finish_session env (events, g)) = events
   \<or> (events \<noteq> [] \<and> fst (finish_session env (events, g)) = mark_last_abandoned events)"
  by (auto simp: finish_session_def split_beta)

lemma choose_template_in_table:
  assumes "choose_template env item_lookup user meal_time g = Inr ((tname, t), g')"
  shows "(tname, t) \<in> set MEAL_TEMPLATES"
proof -
  from assms have "get_template tname = Inr t"
    by (auto simp: choose_template_def ebind_eq_Inr Let_def)
  then have "map_of MEAL_TEMPLATES tname = Some t"
    by (simp add: get_template_def split: option.splits)
  then show ?thesis by (rule map_of_SomeD)
qed

lemma select_anchor_cart:
  assumes "select_anchor env item_lookup user valid g = Inr (cart, g')"
  shows "\<exists>a. cart = [a]"
  using assms by (auto simp: select_anchor_def ebind_eq_Inr Let_def)

lemma run_session_cases [consumes 1, case_names skipped completed]:
  assumes "run_session env item_lookup all_item_ids user start_date n day_offset (events, g)
             = Inr (events', g')"
  obtains (skipped) tname t where "(tname, t) \<in> set MEAL_TEMPLATES"
      and "valid_anchors_of item_lookup t = []" and "events' = events"
    | (completed) tname t sc a g2 g3 g4 events1 cart1 g5 where
      "(tname, t) \<in> set MEAL_TEMPLATES"
      and "valid_anchors_of item_lookup t \<noteq> []"
      and "select_anchor env item_lookup user (valid_anchors_of item_lookup t) g2 = Inr ([a], g3)"
      and "sc_item_lookup sc = item_lookup" and "sc_all_item_ids sc = all_item_ids"
      and "sc_template sc = t" and "sc_user sc = user"
      and "sc_session_id sc = format_session_id n"
      and "run_roles env sc [''complement'', ''addon'', ''finisher''] (events, [a], g4)
             = Inr (events1, cart1, g5)"
      and "(events', g') = finish_session env (events1, g5)"
proof -
  from assms obtain base_date where b: "add_days start_date day_offset = Inr base_date"
    by (auto simp: run_session_def ebind_eq_Inr)
  obtain ts g1 where ts: "sample_timestamp env g base_date = (ts, g1)"
    by (cases "sample_timestamp env g base_date") auto
  from assms b ts obtain tname t g2 where
    ct: "choose_template env item_lookup user (get_meal_time (int (dt_hour ts))) g1
           = Inr ((tname, t), g2)"
    by (auto simp: run_session_def ebind_eq_Inr Let_def)
  have tab: "(tname, t) \<in> set MEAL_TEMPLATES" by (rule choose_template_in_table [OF ct])
  show thesis
  proof (cases "valid_anchors_of item_lookup t = []")
    case True
    then have "events' = events"
      using assms b ts ct by (simp add: run_session_def Let_def)
    then show thesis by (rule skipped [OF tab True])
  next
    case False
    from assms b ts ct False obtain cart g3 where
      sa: "select_anchor env item_lookup user (valid_anchors_of item_lookup t) g2 = Inr (cart, g3)"
      by (auto simp: run_session_def ebind_eq_Inr Let_def)
    obtain a where a: "cart = [a]" using select_anchor_cart [OF sa] by blast
    define sc where "sc =
      \<lparr>sc_item_lookup = item_lookup, sc_all_item_ids = all_item_ids, sc_user = user,
       sc_session_id = format_session_id n, sc_timestamp = ts,
       sc_meal_time = get_meal_time (int (dt_hour ts)),
       sc_template_name = tname, sc_template = t,
       sc_is_abandoned = (fst (rng_random env g3) < 0.08)\<rparr>"
    have step: "run_session env item_lookup all_item_ids user start_date n day_offset (events, g)
                  = ebind (run_roles env sc [''complement'', ''addon'', ''finisher'']
                             (events, cart, snd (rng_random env g3)))
                      (\<lambda>(events1, cart1, g5). Inr (finish_session env (events1, g5)))"
      using b ts ct False sa
      by (simp add: run_session_def Let_def split_beta sc_def)
    from assms obtain st where
      rr: "run_roles env sc [''complement'', ''addon'', ''finisher'']
             (events, cart, snd (rng_random env g3)) = Inr st"
      and fin0: "(case st of (events1, cart1, g5) \<Rightarrow> Inr (finish_session env (events1, g5)))
                   = (Inr (events', g') :: error + (Event list \<times> 'a))"
      unfolding step ebind_eq_Inr by blast
    obtain events1 cart1 g5 where st: "st = (events1, cart1, g5)" by (cases st) auto
    have fin: "(events', g') = finish_session env (events1, g5)"
      using fin0 unfolding st by simp
    have f: "sc_item_lookup sc = item_lookup" "sc_all_item_ids sc = all_item_ids"
      "sc_template sc = t" "sc_user sc = user" "sc_session_id sc = format_session_id n"
      by (simp_all add: sc_def)
    show thesis
      by (rule completed [OF tab False sa [unfolded a] f rr [unfolded st a] fin])
  qed
qed

lemma run_session_ok:
  assumes "rng_contract env" and "distinct all_item_ids"
    and "run_session env item_lookup all_item_ids user start_date n day_offset (events, g)
           = Inr (events', g')"
    and "list_all event_ok events"
  shows "list_all event_ok events'"
  using assms(3)
proof (cases rule: run_session_cases)
  case (skipped tname t)
  then show ?thesis using assms(4) by simp
next
  case (completed tname t sc a g2 g3 g4 events1 cart1 g5)
  have d: "distinct (sc_all_item_ids sc)" using assms(2) completed(5) by simp
  have dr: "\<forall>role \<in> set [''complement'', ''addon'', ''finisher''].
              distinct (role_items_of (sc_template sc) role)"
    using template_role_items_distinct [OF completed(1)] completed(6) by simp
  have "list_all event_ok events1"
    using run_roles_ok [OF assms(1) d dr completed(9) _ assms(4)] by simp
  moreover have "events' = fst (finish_session env (events1, g5))"
    by (simp add: completed(10) [symmetric])
  ultimately show ?thesis
    using finish_session_cases [of env events1 g5]
    by (auto simp: event_ok_mark_last_abandoned)
qed

lemma run_orders_ok:
  assumes "rng_contract env" and "distinct all_item_ids"
    and "run_orders env item_lookup all_item_ids user start_date days (events, n, g)
           = Inr (events', n', g')"
    and "list_all event_ok events"
  shows "list_all event_ok events'"
  using assms(3-)
proof (induction days arbitrary: events n g)
  case Nil
  then show ?case by simp
next
  case (Cons d days)
  from Cons.prems(1) obtain e1 g1 where
    s: "run_session env item_lookup all_item_ids user start_date (n + 1) d (events, g) = Inr (e1, g1)"
    and r: "run_orders env item_lookup all_item_ids user start_date days (e1, n + 1, g1)
              = Inr (events', n', g')"
    by (auto simp: ebind_eq_Inr)
  have "list_all event_ok e1" by (rule run_session_ok [OF assms(1,2) s Cons.prems(2)])
  then show ?case by (rule Cons.IH [OF r])
qed

lemma run_users_ok:
  assumes "rng_contract env" and "distinct all_item_ids"
    and "run_users env item_lookup all_item_ids n_days start_date users (events, n, g)
           = Inr (events', n', g')"
    and "list_all event_ok events"
  shows "list_all event_ok events'"
  using assms(3-)
proof (induction users arbitrary: events n g)
  case Nil
  then show ?case by simp
next
  case (Cons u users)
  from Cons.prems(1) obtain days g1 st where
    o: "run_orders env item_lookup all_item_ids u start_date (sort days) (events, n, g1) = Inr st"
    and r: "run_users env item_lookup all_item_ids n_days start_date users st = Inr (events', n', g')"
    by (auto simp: ebind_eq_Inr)
  obtain e1 n1 g2 where st: "st = (e1, n1, g2)" by (cases st) auto
  have "list_all event_ok e1" by (rule run_orders_ok [OF assms(1,2) o [unfolded st] Cons.prems(2)])
  then show ?case by (rule Cons.IH [OF r [unfolded st]])
qed

text \<open>
  C3: under numpy's contract for the generator, every event that \<open>generate_sessions\<close>
  returns has a candidate that is not in the event's cart snapshot, and the snapshot has
  no duplicate item ids. The cart only grows by appending the accepted candidate, the
  candidates of a role are distinct and none of them is in the cart when the role starts.
\<close>

theorem candidate_never_in_cart:
  assumes "rng_contract env"
    and "generate_sessions env users catalog n_days start_date g = Inr events"
    and "ev \<in> set events"
  shows "ev_candidate_item_id ev \<notin> set (ev_cart_items ev) \<and> distinct (ev_cart_items ev)"
proof -
  from assms(2) obtain n' g' where
    r: "run_users env (item_lookup_of catalog) (all_item_ids_of catalog) n_days start_date users
          ([], 0, g) = Inr (events, n', g')"
    by (auto simp: generate_sessions_def ebind_eq_Inr)
  have d: "distinct (all_item_ids_of catalog)" by (simp add: all_item_ids_of_def)
  have "list_all event_ok events"
    by (rule run_users_ok [OF assms(1) d r]) simp
  with assms(3) show ?thesis by (simp add: list_all_iff event_ok_def)
qed

theorem candidate_never_in_cart_witness:
  "rng_contract (tape_runtime remdups)
   \<and> generate_sessions (tape_runtime remdups) [user_1] small_catalog 30 start_2025 tape_1
        = Inr events_1
   \<and> length events_1 = 4
   \<and> events_1 ! 1 \<in> set events_1
   \<and> ev_cart_items (events_1 ! 1) = [''ITEM_003'', ''ITEM_035'']
   \<and> ev_candidate_item_id (events_1 ! 1) = ''ITEM_050''
   \<and> ev_candidate_item_id (events_1 ! 1) \<notin> set (ev_cart_items (events_1 ! 1))
   \<and> distinct (ev_cart_items (events_1 ! 1))"
proof -
  have h1: "rng_contract (tape_runtime remdups)" by (rule tape_runtime_contract)
  have h2: "generate_sessions (tape_runtime remdups) [user_1] small_catalog 30 start_2025 tape_1
              = Inr events_1" by code_simp
  have n: "length events_1 = 4" by code_simp
  then have h3: "events_1 ! 1 \<in> set events_1" by simp
  have c: "ev_cart_items (events_1 ! 1) = [''ITEM_003'', ''ITEM_035'']" by code_simp
  have i: "ev_candidate_item_id (events_1 ! 1) = ''ITEM_050''" by code_simp
  have k: "ev_candidate_item_id (events_1 ! 1) \<notin> set (ev_cart_items (events_1 ! 1))
           \<and> distinct (ev_cart_items (events_1 ! 1))"
    by (rule candidate_never_in_cart [OF h1 h2 h3])
  show ?thesis by (intro conjI h1 h2 n h3 c i conjunct1 [OF k] conjunct2 [OF k])
qed

section \<open>The last event belongs to the session that just completed\<close>

lemma candidate_step_event:
  assumes "candidate_step env sc ap noise c (events, cart, g) = Inr (events', cart', g')"
  shows "\<exists>ev. events' = events @ [ev] \<and> event_in_catalog (sc_item_lookup sc) ev
              \<and> event_of_session sc ev"
proof -
  from candidate_step_Inr [OF assms] obtain it ev where
    lk: "sc_item_lookup sc c = Some it"
    and ev: "make_event env sc cart c it (ev_candidate_accepted ev) = Inr ev"
    and res: "events' = events @ [ev]"
    by blast
  note f = make_event_fields [OF ev]
  have "event_in_catalog (sc_item_lookup sc) ev"
    using f(2,3,5,7) lk by (simp add: event_in_catalog_def list_all_iff)
  moreover have "event_of_session sc ev"
    using f(4,8) by (simp add: event_of_session_def)
  ultimately show ?thesis using res by blast
qed

lemma run_candidates_events:
  assumes "run_candidates env sc ap noise cs ([], cart, g) = Inr (new, cart', g')"
  shows "list_all (event_in_catalog (sc_item_lookup sc)) new
         \<and> list_all (event_of_session sc) new \<and> length new = length cs"
  using assms
proof (induction cs arbitrary: new cart g)
  case Nil
  then show ?case by simp
next
  case (Cons c cs)
  from Cons.prems obtain st where s1: "candidate_step env sc ap noise c ([], cart, g) = Inr st"
    and s2: "run_candidates env sc ap noise cs st = Inr (new, cart', g')"
    by (auto simp: ebind_eq_Inr)
  obtain e1 cart1 g1 where st: "st = (e1, cart1, g1)" by (cases st) auto
  from candidate_step_event [OF s1 [unfolded st]] obtain ev where
    e1: "e1 = [ev]" and ev: "event_in_catalog (sc_item_lookup sc) ev"
      "event_of_session sc ev"
    by auto
  obtain new2 where n2: "run_candidates env sc ap noise cs ([], cart1, g1) = Inr (new2, cart', g')"
    and new: "new = e1 @ new2"
    using s2 unfolding st run_candidates_onto [of _ _ _ _ _ e1] by (auto simp: emit_onto_eq_Inr)
  from Cons.IH [OF n2] show ?case using new e1 ev by simp
qed

lemma run_role_events:
  assumes "run_role env sc role ([], cart, g) = Inr (new, cart', g')"
  shows "list_all (event_in_catalog (sc_item_lookup sc)) new
         \<and> list_all (event_of_session sc) new"
proof (cases "role_items_of (sc_template sc) role = []")
  case True
  then show ?thesis using assms by (simp add: run_role_def)
next
  case False
  then show ?thesis
    using assms
    by (auto simp: run_role_def Let_def ebind_eq_Inr dest: run_candidates_events)
qed

lemma run_roles_events:
  assumes "run_roles env sc roles (events, cart, g) = Inr (events', cart', g')"
  shows "\<exists>new. events' = events @ new
           \<and> list_all (event_in_catalog (sc_item_lookup sc)) new
           \<and> list_all (event_of_session sc) new"
  using assms
proof (induction roles arbitrary: events cart g)
  case Nil
  then show ?case by simp
next
  case (Cons r rs)
  from Cons.prems obtain st where s1: "run_role env sc r (events, cart, g) = Inr st"
    and s2: "run_roles env sc rs st = Inr (events', cart', g')"
    by (auto simp: ebind_eq_Inr)
  obtain e1 cart1 g1 where st: "st = (e1, cart1, g1)" by (cases st) auto
  obtain new1 where r1: "run_role env sc r ([], cart, g) = Inr (new1, cart1, g1)"
    and e1: "e1 = events @ new1"
    using s1 unfolding st run_role_onto [of _ _ _ events] by (auto simp: emit_onto_eq_Inr)
  from Cons.IH [OF s2 [unfolded st]] obtain new2 where
    n2: "events' = e1 @ new2" "list_all (event_in_catalog (sc_item_lookup sc)) new2"
      "list_all (event_of_session sc) new2"
    by blast
  show ?case
    using run_role_events [OF r1] n2 e1
    by (intro exI [of _ "new1 @ new2"]) simp
qed

lemma run_role_emits:
  assumes "rng_contract env" and "distinct (sc_all_item_ids sc)"
    and "role_items_of (sc_template sc) role \<noteq> []"
    and "2 \<le> length (sc_all_item_ids sc)"
    and "run_role env sc role ([], [a], g) = Inr (new, cart', g')"
  shows "new \<noteq> []"
proof -
  let ?valid = "valid_candidates_of sc (role_items_of (sc_template sc) role) [a]"
  from assms(5,3) obtain ap noise g1 where
    n: "np_choice_noreplace env (noise_pool_of sc [a] ?valid) (noise_size_of sc [a] ?valid) g
          = Inr (noise, g1)"
    and r: "run_candidates env sc ap noise (?valid @ noise) ([], [a], g1) = Inr (new, cart', g')"
    by (auto simp: run_role_def Let_def ebind_eq_Inr)
  have len: "int (length noise) = noise_size_of sc [a] ?valid"
    using noise_candidates_from_pool [OF assms(1,2) n] by simp
  have "?valid @ noise \<noteq> []"
  proof (cases "?valid = []")
    case True
    then have "noise_size_of sc [a] ?valid = min 3 (int (length (sc_all_item_ids sc)) - 1)"
      by (simp add: noise_size_of_def)
    then have "1 \<le> int (length noise)" using len assms(4) by simp
    then show ?thesis by auto
  next
    case False
    then show ?thesis by simp
  qed
  moreover have "length new = length (?valid @ noise)"
    using run_candidates_events [OF r] by simp
  ultimately show ?thesis by auto
qed

lemma templates_have_addons:
  "list_all (\<lambda>nt. addons (snd nt) \<noteq> []) MEAL_TEMPLATES"
  by code_simp

lemma template_has_addons:
  assumes "(tname, t) \<in> set MEAL_TEMPLATES"
  shows "role_items_of t ''addon'' \<noteq> []"
proof -
  have "addons t \<noteq> []"
    using templates_have_addons assms unfolding list_all_iff by fastforce
  then show ?thesis by (simp add: role_items_of_def)
qed

lemma session_emits:
  assumes "rng_contract env" and "distinct (sc_all_item_ids sc)"
    and "(tname, sc_template sc) \<in> set MEAL_TEMPLATES"
    and "2 \<le> length (sc_all_item_ids sc)"
    and "run_roles env sc [''complement'', ''addon'', ''finisher''] (events, [a], g)
           = Inr (events', cart', g')"
  shows "length events < length events'"
proof -
  from assms(5) obtain s1 s2 where
    r1: "run_role env sc ''complement'' (events, [a], g) = Inr s1"
    and r2: "run_roles env sc [''addon'', ''finisher''] s1 = Inr (events', cart', g')"
    by (auto simp: ebind_eq_Inr)
  obtain e1 cart1 g1 where s1: "s1 = (e1, cart1, g1)" by (cases s1) auto
  obtain ec where c: "run_role env sc ''complement'' ([], [a], g) = Inr (ec, cart1, g1)"
    and e1: "e1 = events @ ec"
    using r1 unfolding s1 run_role_onto [of _ _ _ events] by (auto simp: emit_onto_eq_Inr)
  from run_roles_events [OF r2 [unfolded s1]] obtain rest where rest: "events' = e1 @ rest"
    by blast
  show ?thesis
  proof (cases "role_items_of (sc_template sc) ''complement'' = []")
    case False
    have "ec \<noteq> []" by (rule run_role_emits [OF assms(1,2) False assms(4) c])
    then show ?thesis using e1 rest by simp
  next
    case True
    then have same: "ec = []" "cart1 = [a]" "g1 = g"
      using c by (simp_all add: run_role_skipped)
    from r2 obtain s3 where
      r3: "run_role env sc ''addon'' (e1, [a], g) = Inr s3"
      and r4: "run_roles env sc [''finisher''] s3 = Inr (events', cart', g')"
      unfolding s1 same by (auto simp: ebind_eq_Inr)
    obtain e3 cart3 g3 where s3: "s3 = (e3, cart3, g3)" by (cases s3) auto
    obtain ea where a: "run_role env sc ''addon'' ([], [a], g) = Inr (ea, cart3, g3)"
      and e3: "e3 = e1 @ ea"
      using r3 unfolding s3 run_role_onto [of _ _ _ e1] by (auto simp: emit_onto_eq_Inr)
    from run_roles_events [OF r4 [unfolded s3]] obtain rest2 where rest2: "events' = e3 @ rest2"
      by blast
    have "ea \<noteq> []"
      by (rule run_role_emits [OF assms(1,2) template_has_addons [OF assms(3)] assms(4) a])
    then show ?thesis using e1 e3 rest2 by simp
  qed
qed

lemma two_items_in_catalog:
  assumes "event_ok ev" and "event_in_catalog item_lookup ev"
    and "set all_item_ids = dom item_lookup"
  shows "2 \<le> length all_item_ids"
proof -
  obtain x xs where cart: "ev_cart_items ev = x # xs"
    using assms(2) by (cases "ev_cart_items ev") (auto simp: event_in_catalog_def)
  have x: "x \<in> set all_item_ids"
    using assms(2,3) cart by (auto simp: event_in_catalog_def)
  have c: "ev_candidate_item_id ev \<in> set all_item_ids"
    using assms(2,3) by (auto simp: event_in_catalog_def)
  have ne: "ev_candidate_item_id ev \<noteq> x"
    using assms(1) cart by (auto simp: event_ok_def)
  have "card {x, ev_candidate_item_id ev} \<le> card (set all_item_ids)"
    using x c by (intro card_mono) auto
  also have "\<dots> \<le> length all_item_ids" by (rule card_length)
  finally show ?thesis using ne by simp
qed

lemma dom_item_lookup_of: "set (all_item_ids_of catalog) = dom (item_lookup_of catalog)"
  by (auto simp: all_item_ids_of_def item_lookup_of_def dom_map_of_conv_image_fst image_image)

lemma event_in_catalog_mark_last_abandoned:
  "list_all (event_in_catalog item_lookup) (mark_last_abandoned events)
     = list_all (event_in_catalog item_lookup) events"
proof -
  have "map (event_in_catalog item_lookup) (mark_last_abandoned events)
          = map (event_in_catalog item_lookup) events"
    by (rule map_mark_last_abandoned) (simp add: event_in_catalog_def)
  then have "list_all id (map (event_in_catalog item_lookup) (mark_last_abandoned events))
               = list_all id (map (event_in_catalog item_lookup) events)"
    by simp
  then show ?thesis by (simp add: list_all_iff)
qed

lemma run_session_in_catalog:
  assumes "run_session env item_lookup all_item_ids user start_date n day_offset (events, g)
             = Inr (events', g')"
    and "list_all (event_in_catalog item_lookup) events"
  shows "list_all (event_in_catalog item_lookup) events'"
  using assms(1)
proof (cases rule: run_session_cases)
  case (skipped tname t)
  then show ?thesis using assms(2) by simp
next
  case (completed tname t sc a g2 g3 g4 events1 cart1 g5)
  from run_roles_events [OF completed(9)] obtain new where
    "events1 = events @ new" "list_all (event_in_catalog (sc_item_lookup sc)) new"
    by blast
  then have "list_all (event_in_catalog item_lookup) events1"
    using assms(2) completed(4) by simp
  moreover have "events' = fst (finish_session env (events1, g5))"
    by (simp add: completed(10) [symmetric])
  ultimately show ?thesis
    using finish_session_cases [of env events1 g5]
    by (auto simp: event_in_catalog_mark_last_abandoned)
qed

text \<open>
  \<open>session_start\<close> holds of every event list between two sessions of a run of
  \<open>generate_sessions\<close>: the order loop and the user loop only pass on what a session
  returned. Under numpy's contract such a list holds events of the catalog only, each
  with a candidate outside its cart.
\<close>

lemma session_start_inv:
  assumes "rng_contract env" and "session_start env catalog events"
  shows "list_all event_ok events
       \<and> list_all (event_in_catalog (item_lookup_of catalog)) events"
  using assms(2)
proof induction
  case initial
  show ?case by simp
next
  case (session events user start_date n day_offset g events' g')
  have d: "distinct (all_item_ids_of catalog)" by (simp add: all_item_ids_of_def)
  show ?case
    using run_session_ok [OF assms(1) d session(2)] run_session_in_catalog [OF session(2)]
      session(3)
    by simp
qed

lemma run_orders_session_start:
  assumes "run_orders env (item_lookup_of catalog) (all_item_ids_of catalog) user start_date
             days (events, n, g) = Inr (events', n', g')"
    and "session_start env catalog events"
  shows "session_start env catalog events'"
  using assms
proof (induction days arbitrary: events n g)
  case Nil
  then show ?case by simp
next
  case (Cons d days)
  from Cons.prems(1) obtain e1 g1 where
    s: "run_session env (item_lookup_of catalog) (all_item_ids_of catalog) user start_date
          (n + 1) d (events, g) = Inr (e1, g1)"
    and r: "run_orders env (item_lookup_of catalog) (all_item_ids_of catalog) user start_date
              days (e1, n + 1, g1) = Inr (events', n', g')"
    by (auto simp: ebind_eq_Inr)
  have "session_start env catalog e1" by (rule session_start.session [OF Cons.prems(2) s])
  then show ?case by (rule Cons.IH [OF r])
qed

lemma run_users_session_start:
  assumes "run_users env (item_lookup_of catalog) (all_item_ids_of catalog) n_days start_date
             users (events, n, g) = Inr (events', n', g')"
    and "session_start env catalog events"
  shows "session_start env catalog events'"
  using assms
proof (induction users arbitrary: events n g)
  case Nil
  then show ?case by simp
next
  case (Cons u users)
  from Cons.prems(1) obtain days g1 st where
    o: "run_orders env (item_lookup_of catalog) (all_item_ids_of catalog) u start_date
          (sort days) (events, n, g1) = Inr st"
    and r: "run_users env (item_lookup_of catalog) (all_item_ids_of catalog) n_days start_date
              users st = Inr (events', n', g')"
    by (auto simp: ebind_eq_Inr)
  obtain e1 n1 g2 where st: "st = (e1, n1, g2)" by (cases st) auto
  have "session_start env catalog e1"
    by (rule run_orders_session_start [OF o [unfolded st] Cons.prems(2)])
  then show ?case by (rule Cons.IH [OF r [unfolded st]])
qed

lemma generate_sessions_session_start:
  assumes "generate_sessions env users catalog n_days start_date g = Inr events"
  shows "session_start env catalog events"
proof -
  from assms obtain n g' where
    r: "run_users env (item_lookup_of catalog) (all_item_ids_of catalog) n_days start_date users
          ([], 0, g) = Inr (events, n, g')"
    by (auto simp: generate_sessions_def ebind_eq_Inr)
  show ?thesis by (rule run_users_session_start [OF r session_start.initial])
qed

text \<open>
  The list that the role loop of a session hands to the step of lines 658-661 extends the
  list the session started with. Under numpy's contract, when it is not empty its last
  event was emitted by this session: if the catalog has at least two ids the first role
  entered has a candidate, and if it has fewer no session ever emits an event.
\<close>

lemma role_loop_last_event:
  assumes "rng_contract env" and "session_start env catalog events"
    and "sc_item_lookup sc = item_lookup_of catalog"
    and "sc_all_item_ids sc = all_item_ids_of catalog"
    and "(tname, sc_template sc) \<in> set MEAL_TEMPLATES"
    and "run_roles env sc [''complement'', ''addon'', ''finisher''] (events, [a], g)
           = Inr (events1, cart1, g1)"
  shows "take (length events) events1 = events"
    and "events1 \<noteq> [] \<Longrightarrow> length events < length events1"
    and "events1 \<noteq> [] \<Longrightarrow> ev_session_id (last events1) = sc_session_id sc"
    and "events1 \<noteq> [] \<Longrightarrow> ev_user_id (last events1) = user_id (sc_user sc)"
proof -
  have d: "distinct (sc_all_item_ids sc)" by (simp add: assms(4) all_item_ids_of_def)
  have s: "set (sc_all_item_ids sc) = dom (sc_item_lookup sc)"
    by (simp add: assms(3,4) dom_item_lookup_of)
  note inv = session_start_inv [OF assms(1,2)]
  from run_roles_events [OF assms(6)] obtain new where
    new: "events1 = events @ new"
    and cat: "list_all (event_in_catalog (sc_item_lookup sc)) new"
    and sid: "list_all (event_of_session sc) new"
    by blast
  show "take (length events) events1 = events" using new by simp
  have dr: "\<forall>role \<in> set [''complement'', ''addon'', ''finisher''].
              distinct (role_items_of (sc_template sc) role)"
    using template_role_items_distinct [OF assms(5)] by simp
  have ok: "list_all event_ok events1"
    using run_roles_ok [OF assms(1) d dr assms(6)] inv by simp
  have nn: "new \<noteq> []" if "events1 \<noteq> []"
  proof -
    have "hd events1 \<in> set events1" using that by simp
    then have "event_ok (hd events1)" "event_in_catalog (sc_item_lookup sc) (hd events1)"
      using ok inv cat new assms(3) by (auto simp: list_all_iff)
    then have "2 \<le> length (sc_all_item_ids sc)"
      using s by (rule two_items_in_catalog)
    from session_emits [OF assms(1) d assms(5) this assms(6)]
    show ?thesis using new by auto
  qed
  show "length events < length events1" if "events1 \<noteq> []"
    using nn [OF that] new by simp
  have "last events1 \<in> set new" if "events1 \<noteq> []"
    using nn [OF that] new by simp
  then have "event_of_session sc (last events1)" if "events1 \<noteq> []"
    using that sid by (simp add: list_all_iff)
  then show "events1 \<noteq> [] \<Longrightarrow> ev_session_id (last events1) = sc_session_id sc"
    and "events1 \<noteq> [] \<Longrightarrow> ev_user_id (last events1) = user_id (sc_user sc)"
    by (simp_all add: event_of_session_def)
qed

text \<open>
  C7, as stated, fails in its clause that the overridden event may belong to an earlier
  session or a different user: there is no generator satisfying numpy's contract, catalog,
  event list left by earlier sessions and session over a template of \<open>MEAL_TEMPLATES\<close>
  whose role loop ends with a non-empty event list whose last event has another session
  id, another user id, or was already in the list when the session started.
\<close>

theorem override_other_session_counterexample:
  "\<not> (\<exists>(env :: 'g runtime) catalog events sc tname a g events1 cart1 g1.
        rng_contract env
      \<and> session_start env catalog events
      \<and> sc_item_lookup sc = item_lookup_of catalog
      \<and> sc_all_item_ids sc = all_item_ids_of catalog
      \<and> (tname, sc_template sc) \<in> set MEAL_TEMPLATES
      \<and> run_roles env sc [''complement'', ''addon'', ''finisher''] (events, [a], g)
           = Inr (events1, cart1, g1)
      \<and> events1 \<noteq> []
      \<and> (ev_session_id (last events1) \<noteq> sc_session_id sc
         \<or> ev_user_id (last events1) \<noteq> user_id (sc_user sc)
         \<or> length events1 \<le> length events))"
proof
  assume "\<exists>(env :: 'g runtime) catalog events sc tname a g events1 cart1 g1.
        rng_contract env
      \<and> session_start env catalog events
      \<and> sc_item_lookup sc = item_lookup_of catalog
      \<and> sc_all_item_ids sc = all_item_ids_of catalog
      \<and> (tname, sc_template sc) \<in> set MEAL_TEMPLATES
      \<and> run_roles env sc [''complement'', ''addon'', ''finisher''] (events, [a], g)
           = Inr (events1, cart1, g1)
      \<and> events1 \<noteq> []
      \<and> (ev_session_id (last events1) \<noteq> sc_session_id sc
         \<or> ev_user_id (last events1) \<noteq> user_id (sc_user sc)
         \<or> length events1 \<le> length events)"
  then obtain env :: "'g runtime" and catalog events sc tname a g events1 cart1 g1 where
    h: "rng_contract env" "session_start env catalog events"
      "sc_item_lookup sc = item_lookup_of catalog"
      "sc_all_item_ids sc = all_item_ids_of catalog"
      "(tname, sc_template sc) \<in> set MEAL_TEMPLATES"
      "run_roles env sc [''complement'', ''addon'', ''finisher''] (events, [a], g)
         = Inr (events1, cart1, g1)"
    and ne: "events1 \<noteq> []"
    and bad: "ev_session_id (last events1) \<noteq> sc_session_id sc
         \<or> ev_user_id (last events1) \<noteq> user_id (sc_user sc)
         \<or> length events1 \<le> length events"
    by blast
  from role_loop_last_event(2,3,4) [OF h ne] bad show False by simp
qed

text \<open>
  C7, amended: under numpy's contract, a session that starts from the event list left by
  earlier sessions and returns leaves every earlier event as it was. Either it returns the
  list unchanged (it was skipped, or no event exists at all), or its role loop has appended
  at least one event, the last event of the list carries this session's id and this user's
  id, and the step after the role loop draws one uniform number and, when that is below
  0.05, sets \<open>is_abandoned\<close> of this last event to 1; every other event, every other
  field of the last event and the length of the list are unchanged by this step.
\<close>

theorem override_marks_current_session:
  assumes "rng_contract env"
    and "session_start env catalog events"
    and "run_session env (item_lookup_of catalog) (all_item_ids_of catalog) user start_date n
           day_offset (events, g) = Inr (events', g')"
  shows "take (length events) events' = events
       \<and> (events' = events
          \<or> (\<exists>sc a g4 events1 cart1 g5.
               sc_session_id sc = format_session_id n \<and> sc_user sc = user
             \<and> run_roles env sc [''complement'', ''addon'', ''finisher''] (events, [a], g4)
                  = Inr (events1, cart1, g5)
             \<and> finish_session env (events1, g5) = (events', g')
             \<and> g' = snd (rng_random env g5)
             \<and> length events < length events1
             \<and> ev_session_id (last events1) = format_session_id n
             \<and> ev_user_id (last events1) = user_id user
             \<and> length events' = length events1
             \<and> (\<forall>i. i + 1 < length events1 \<longrightarrow> events' ! i = events1 ! i)
             \<and> last events'
                 = (if fst (rng_random env g5) < 0.05
                    then (last events1)\<lparr>ev_is_abandoned := 1\<rparr> else last events1)))"
  using assms(3)
proof (cases rule: run_session_cases)
  case (skipped tname t)
  then show ?thesis by simp
next
  case (completed tname t sc a g2 g3 g4 events1 cart1 g5)
  have tab: "(tname, sc_template sc) \<in> set MEAL_TEMPLATES" using completed(1,6) by simp
  note ll = role_loop_last_event [OF assms(1,2) completed(4,5) tab completed(9)]
  have fin: "finish_session env (events1, g5) = (events', g')" using completed(10) by simp
  note fr = finish_session_frame [OF fin]
  have len: "length events' = length events1" using fr by simp
  have keep: "\<forall>i. i + 1 < length events1 \<longrightarrow> events' ! i = events1 ! i" using fr by simp
  have g: "g' = snd (rng_random env g5)" using fr by simp
  show ?thesis
  proof (cases "events1 = []")
    case True
    then have "events' = []" using len by simp
    moreover have "events = []" using ll(1) True by simp
    ultimately show ?thesis by simp
  next
    case False
    have "take (length events) events' = take (length events) events1"
      using ll(2) [OF False] len keep by (intro nth_equalityI) auto
    then have t: "take (length events) events' = events" using ll(1) by simp
    have l: "last events'
               = (if fst (rng_random env g5) < 0.05
                  then (last events1)\<lparr>ev_is_abandoned := 1\<rparr> else last events1)"
      using fr False by simp
    have s: "ev_session_id (last events1) = format_session_id n"
      using ll(3) [OF False] completed(8) by simp
    have u: "ev_user_id (last events1) = user_id user"
      using ll(4) [OF False] completed(7) by simp
    have "\<exists>sc a g4 events1 cart1 g5.
               sc_session_id sc = format_session_id n \<and> sc_user sc = user
             \<and> run_roles env sc [''complement'', ''addon'', ''finisher''] (events, [a], g4)
                  = Inr (events1, cart1, g5)
             \<and> finish_session env (events1, g5) = (events', g')
             \<and> g' = snd (rng_random env g5)
             \<and> length events < length events1
             \<and> ev_session_id (last events1) = format_session_id n
             \<and> ev_user_id (last events1) = user_id user
             \<and> length events' = length events1
             \<and> (\<forall>i. i + 1 < length events1 \<longrightarrow> events' ! i = events1 ! i)
             \<and> last events'
                 = (if fst (rng_random env g5) < 0.05
                    then (last events1)\<lparr>ev_is_abandoned := 1\<rparr> else last events1)"
      using completed(8,7,9) fin g ll(2) [OF False] s u len keep l by blast
    with t show ?thesis by blast
  qed
qed

theorem override_marks_current_session_witness:
  "rng_contract (tape_runtime remdups)
   \<and> session_start (tape_runtime remdups) small_catalog events_1
   \<and> run_session (tape_runtime remdups) (item_lookup_of small_catalog)
        (all_item_ids_of small_catalog) user_2 start_2025 2 3 (events_1, tape_2)
       = Inr (fst (projr (run_session (tape_runtime remdups) (item_lookup_of small_catalog)
                            (all_item_ids_of small_catalog) user_2 start_2025 2 3
                            (events_1, tape_2))), [])
   \<and> map (\<lambda>e. (ev_session_id e, ev_user_id e, ev_is_abandoned e)) events_1
       = [(''S0000001'', ''U00001'', 0), (''S0000001'', ''U00001'', 0),
          (''S0000001'', ''U00001'', 0), (''S0000001'', ''U00001'', 0)]
   \<and> take 4 (fst (projr (run_session (tape_runtime remdups) (item_lookup_of small_catalog)
                           (all_item_ids_of small_catalog) user_2 start_2025 2 3
                           (events_1, tape_2)))) = events_1
   \<and> map (\<lambda>e. (ev_session_id e, ev_user_id e, ev_is_abandoned e))
        (drop 4 (fst (projr (run_session (tape_runtime remdups) (item_lookup_of small_catalog)
                               (all_item_ids_of small_catalog) user_2 start_2025 2 3
                               (events_1, tape_2)))))
       = [(''S0000002'', ''U00002'', 0), (''S0000002'', ''U00002'', 0),
          (''S0000002'', ''U00002'', 0), (''S0000002'', ''U00002'', 1)]"
proof -
  let ?E = "tape_runtime remdups"
  let ?r = "run_session ?E (item_lookup_of small_catalog) (all_item_ids_of small_catalog)
              user_2 start_2025 2 3 (events_1, tape_2)"
  have h1: "rng_contract ?E" by (rule tape_runtime_contract)
  have r1: "run_session ?E (item_lookup_of small_catalog) (all_item_ids_of small_catalog)
              user_1 start_2025 1 3 ([], tl tape_1) = Inr (events_1, [])" by code_simp
  have h2: "session_start ?E small_catalog events_1"
    by (rule session_start.session [OF session_start.initial r1])
  have h3: "?r = Inr (fst (projr ?r), [])" by code_simp
  have n: "length events_1 = 4" by code_simp
  have a: "map (\<lambda>e. (ev_session_id e, ev_user_id e, ev_is_abandoned e)) events_1
       = [(''S0000001'', ''U00001'', 0), (''S0000001'', ''U00001'', 0),
          (''S0000001'', ''U00001'', 0), (''S0000001'', ''U00001'', 0)]" by code_simp
  have b: "map (\<lambda>e. (ev_session_id e, ev_user_id e, ev_is_abandoned e)) (drop 4 (fst (projr ?r)))
       = [(''S0000002'', ''U00002'', 0), (''S0000002'', ''U00002'', 0),
          (''S0000002'', ''U00002'', 0), (''S0000002'', ''U00002'', 1)]" by code_simp
  from override_marks_current_session [OF h1 h2 h3]
  have "take (length events_1) (fst (projr ?r)) = events_1" by (rule conjunct1)
  then have t: "take 4 (fst (projr ?r)) = events_1" unfolding n .
  show ?thesis by (intro conjI h1 h2 h3 a t b)
qed

section \<open>Determinism\<close>

lemma ebind_rel:
  assumes "rel_sum (=) R m1 m2"
    and "\<And>x y. R x y \<Longrightarrow> rel_sum (=) Q (f1 x) (f2 y)"
  shows "rel_sum (=) Q (ebind m1 f1) (ebind m2 f2)"
  using assms by (cases m1; cases m2) auto

lemma ebind_rel_same:
  assumes "\<And>x. m = Inr x \<Longrightarrow> rel_sum (=) Q (f1 x) (f2 x)"
  shows "rel_sum (=) Q (ebind m f1) (ebind m f2)"
  using assms by (cases m) auto

lemma same_up_to_set_order_accepted:
  assumes "same_up_to_set_order a b"
  shows "ev_candidate_accepted a = ev_candidate_accepted b"
proof -
  have "ev_candidate_accepted (a\<lparr>ev_cart_categories := [], ev_cart_cuisines := []\<rparr>)
          = ev_candidate_accepted (b\<lparr>ev_cart_categories := [], ev_cart_cuisines := []\<rparr>)"
    using assms by (simp only: same_up_to_set_order_def)
  then show ?thesis by simp
qed

lemma same_up_to_set_order_abandoned:
  assumes "same_up_to_set_order a b"
  shows "same_up_to_set_order (a\<lparr>ev_is_abandoned := 1\<rparr>) (b\<lparr>ev_is_abandoned := 1\<rparr>)"
proof -
  have eq: "a\<lparr>ev_cart_categories := [], ev_cart_cuisines := []\<rparr>
              = b\<lparr>ev_cart_categories := [], ev_cart_cuisines := []\<rparr>"
    and c: "set (ev_cart_categories a) = set (ev_cart_categories b)"
      "set (ev_cart_cuisines a) = set (ev_cart_cuisines b)"
    using assms unfolding same_up_to_set_order_def by blast+
  have sw: "\<And>e. (e\<lparr>ev_is_abandoned := 1\<rparr>)\<lparr>ev_cart_categories := [], ev_cart_cuisines := []\<rparr>
                  = (e\<lparr>ev_cart_categories := [], ev_cart_cuisines := []\<rparr>)\<lparr>ev_is_abandoned := 1\<rparr>"
    by simp
  have "(a\<lparr>ev_is_abandoned := 1\<rparr>)\<lparr>ev_cart_categories := [], ev_cart_cuisines := []\<rparr>
          = (b\<lparr>ev_is_abandoned := 1\<rparr>)\<lparr>ev_cart_categories := [], ev_cart_cuisines := []\<rparr>"
    unfolding sw eq ..
  moreover have "set (ev_cart_categories (a\<lparr>ev_is_abandoned := 1\<rparr>))
                   = set (ev_cart_categories (b\<lparr>ev_is_abandoned := 1\<rparr>))"
    using c by simp
  moreover have "set (ev_cart_cuisines (a\<lparr>ev_is_abandoned := 1\<rparr>))
                   = set (ev_cart_cuisines (b\<lparr>ev_is_abandoned := 1\<rparr>))"
    using c by simp
  ultimately show ?thesis unfolding same_up_to_set_order_def by (intro conjI)
qed

lemma rng_random_set_iter: "rng_random (env\<lparr>set_iter := order'\<rparr>) = rng_random env"
  by simp

lemma make_event_rel:
  assumes "set_iter_contract env" and "set_iter_contract (env\<lparr>set_iter := order'\<rparr>)"
  shows "rel_sum (=) same_up_to_set_order
           (make_event env sc cart c it a) (make_event (env\<lparr>set_iter := order'\<rparr>) sc cart c it a)"
proof -
  have s: "\<And>xs. set (set_iter env xs) = set xs" "\<And>xs. set (order' xs) = set xs"
    using assms by (simp_all add: set_iter_contract_def)
  show ?thesis
    unfolding make_event_def
    by (rule ebind_rel_same) (simp add: Let_def same_up_to_set_order_def s)
qed

lemma candidate_step_rel:
  assumes "set_iter_contract env" and "set_iter_contract (env\<lparr>set_iter := order'\<rparr>)"
    and "same_state s1 s2"
  shows "rel_sum (=) same_state
           (candidate_step env sc ap noise c s1)
           (candidate_step (env\<lparr>set_iter := order'\<rparr>) sc ap noise c s2)"
proof -
  obtain e1 cart g where s1: "s1 = (e1, cart, g)" by (cases s1) auto
  obtain e2 where s2: "s2 = (e2, cart, g)" and e: "list_all2 same_up_to_set_order e1 e2"
    using assms(3) unfolding s1 by (cases s2) (auto simp: same_state_def)
  show ?thesis
    unfolding s1 s2 candidate_step_unfold
    apply (rule ebind_rel_same)
    apply (rule ebind_rel)
     apply (simp only: rng_random_set_iter)
     apply (rule make_event_rel [OF assms(1,2)])
    apply (simp only: rng_random_set_iter)
    apply (simp add: same_state_def e same_up_to_set_order_accepted list_all2_appendI)
    done
qed

lemma run_candidates_rel:
  assumes "set_iter_contract env" and "set_iter_contract (env\<lparr>set_iter := order'\<rparr>)"
    and "same_state s1 s2"
  shows "rel_sum (=) same_state
           (run_candidates env sc ap noise cs s1)
           (run_candidates (env\<lparr>set_iter := order'\<rparr>) sc ap noise cs s2)"
  using assms(3)
proof (induction cs arbitrary: s1 s2)
  case Nil
  then show ?case by simp
next
  case (Cons c cs)
  show ?case
    unfolding run_candidates.simps
    by (rule ebind_rel [OF candidate_step_rel [OF assms(1,2) Cons.prems]]) (rule Cons.IH)
qed

lemma np_choice_noreplace_set_iter [simp]:
  "np_choice_noreplace (env\<lparr>set_iter := order'\<rparr>) = np_choice_noreplace env"
  by (intro ext) (simp add: np_choice_noreplace_def)

lemma np_choice_p_set_iter [simp]:
  "np_choice_p (env\<lparr>set_iter := order'\<rparr>) = np_choice_p env"
  by (intro ext) (simp add: np_choice_p_def)

lemma np_choice_range_set_iter [simp]:
  "np_choice_range (env\<lparr>set_iter := order'\<rparr>) = np_choice_range env"
  by (intro ext) (simp add: np_choice_range_def)

lemma sample_timestamp_set_iter [simp]:
  "sample_timestamp (env\<lparr>set_iter := order'\<rparr>) = sample_timestamp env"
  by (intro ext) (simp add: sample_timestamp_def split_beta Let_def cong: if_cong)

lemma choose_template_set_iter [simp]:
  "choose_template (env\<lparr>set_iter := order'\<rparr>) = choose_template env"
  by (intro ext) (simp add: choose_template_def)

lemma select_anchor_set_iter [simp]:
  "select_anchor (env\<lparr>set_iter := order'\<rparr>) = select_anchor env"
  by (intro ext) (simp add: select_anchor_def)

lemma run_role_rel:
  assumes "set_iter_contract env" and "set_iter_contract (env\<lparr>set_iter := order'\<rparr>)"
    and "same_state s1 s2"
  shows "rel_sum (=) same_state
           (run_role env sc role s1) (run_role (env\<lparr>set_iter := order'\<rparr>) sc role s2)"
proof -
  obtain e1 cart g where s1: "s1 = (e1, cart, g)" by (cases s1) auto
  obtain e2 where s2: "s2 = (e2, cart, g)" and e: "list_all2 same_up_to_set_order e1 e2"
    using assms(3) unfolding s1 by (cases s2) (auto simp: same_state_def)
  show ?thesis
  proof (cases "role_items_of (sc_template sc) role = []")
    case True
    then show ?thesis using assms(3) by (simp add: run_role_def s1 s2)
  next
    case False
    show ?thesis
      unfolding s1 s2 run_role_def
      apply (simp add: False Let_def)
      apply (rule ebind_rel_same)
      apply (rule ebind_rel_same)
      apply (simp only: split_beta)
      apply (rule run_candidates_rel [OF assms(1,2)])
      apply (simp add: same_state_def e)
      done
  qed
qed

lemma run_roles_rel:
  assumes "set_iter_contract env" and "set_iter_contract (env\<lparr>set_iter := order'\<rparr>)"
    and "same_state s1 s2"
  shows "rel_sum (=) same_state
           (run_roles env sc roles s1) (run_roles (env\<lparr>set_iter := order'\<rparr>) sc roles s2)"
  using assms(3)
proof (induction roles arbitrary: s1 s2)
  case Nil
  then show ?case by simp
next
  case (Cons r rs)
  show ?case
    unfolding run_roles.simps
    by (rule ebind_rel [OF run_role_rel [OF assms(1,2) Cons.prems]]) (rule Cons.IH)
qed

lemma mark_last_abandoned_rel:
  assumes "list_all2 same_up_to_set_order e1 e2"
  shows "list_all2 same_up_to_set_order (mark_last_abandoned e1) (mark_last_abandoned e2)"
proof (cases "e1 = []")
  case True
  then show ?thesis using assms by (simp add: mark_last_abandoned_def)
next
  case False
  have len: "length e1 = length e2" using assms by (rule list_all2_lengthD)
  have k: "length e1 - 1 < length e1" using False by simp
  have "same_up_to_set_order (e1 ! (length e1 - 1)) (e2 ! (length e1 - 1))"
    by (rule list_all2_nthD [OF assms k])
  then have "same_up_to_set_order ((e1 ! (length e1 - 1))\<lparr>ev_is_abandoned := 1\<rparr>)
               ((e2 ! (length e1 - 1))\<lparr>ev_is_abandoned := 1\<rparr>)"
    by (rule same_up_to_set_order_abandoned)
  then show ?thesis
    unfolding mark_last_abandoned_def len [symmetric]
    by (rule list_all2_update_cong [OF assms])
qed

lemma finish_session_rel:
  assumes "list_all2 same_up_to_set_order e1 e2"
  shows "same_events (finish_session env (e1, g))
           (finish_session (env\<lparr>set_iter := order'\<rparr>) (e2, g))"
proof -
  have len: "length e1 = length e2" using assms by (rule list_all2_lengthD)
  show ?thesis
  proof (cases "fst (rng_random env g) < 0.05 \<and> length e1 > 0")
    case True
    then have "fst (rng_random env g) < 0.05 \<and> length e2 > 0" using len by simp
    with True show ?thesis
      using mark_last_abandoned_rel [OF assms]
      by (simp add: finish_session_def split_beta same_events_def)
  next
    case False
    then have "\<not> (fst (rng_random env g) < 0.05 \<and> length e2 > 0)" using len by simp
    with False show ?thesis
      using assms by (auto simp: finish_session_def split_beta same_events_def)
  qed
qed

lemma run_session_unfold:
  "run_session env item_lookup all_item_ids user start_date n day_offset (events, g) =
     ebind (add_days start_date day_offset) (\<lambda>base_date.
     ebind (choose_template env item_lookup user
              (get_meal_time (int (dt_hour (fst (sample_timestamp env g base_date)))))
              (snd (sample_timestamp env g base_date))) (\<lambda>r.
     if valid_anchors_of item_lookup (snd (fst r)) = [] then Inr (events, snd r)
     else
       ebind (select_anchor env item_lookup user (valid_anchors_of item_lookup (snd (fst r))) (snd r))
         (\<lambda>c.
       ebind (run_roles env
                (mk_ctx item_lookup all_item_ids user n (fst (sample_timestamp env g base_date))
                   (fst r) (fst (rng_random env (snd c)) < 0.08))
                [''complement'', ''addon'', ''finisher'']
                (events, fst c, snd (rng_random env (snd c))))
         (\<lambda>s. Inr (finish_session env (fst s, snd (snd s)))))))"
  unfolding run_session_def mk_ctx_def
  by (auto simp: Let_def split_beta intro!: ebind_cong)

lemma finish_session_rel_state:
  assumes "same_state s1 s2"
  shows "same_events (finish_session env (fst s1, snd (snd s1)))
           (finish_session (env\<lparr>set_iter := order'\<rparr>) (fst s2, snd (snd s2)))"
proof -
  have "list_all2 same_up_to_set_order (fst s1) (fst s2)" and "snd (snd s1) = snd (snd s2)"
    using assms by (simp_all add: same_state_def)
  then show ?thesis using finish_session_rel [of "fst s1" "fst s2"] by simp
qed

lemma run_session_rel:
  assumes "set_iter_contract env" and "set_iter_contract (env\<lparr>set_iter := order'\<rparr>)"
    and "list_all2 same_up_to_set_order e1 e2"
  shows "rel_sum (=) same_events
           (run_session env item_lookup all_item_ids user start_date n day_offset (e1, g))
           (run_session (env\<lparr>set_iter := order'\<rparr>) item_lookup all_item_ids user start_date n
              day_offset (e2, g))"
  unfolding run_session_unfold sample_timestamp_set_iter choose_template_set_iter
    select_anchor_set_iter rng_random_set_iter
  apply (rule ebind_rel_same)
  apply (rule ebind_rel_same)
  subgoal for base_date r
    apply (cases "valid_anchors_of item_lookup (snd (fst r)) = []")
     apply (simp add: same_events_def assms(3))
    apply (simp only: if_False)
    apply (rule ebind_rel_same)
    apply (rule ebind_rel [where R = same_state])
     apply (rule run_roles_rel [OF assms(1,2)])
     apply (simp only: same_state_def fst_conv snd_conv assms(3) simp_thms)
    apply (simp only: rel_sum_simps)
    apply (erule finish_session_rel_state)
    done
  done

lemma run_orders_rel:
  assumes "set_iter_contract env" and "set_iter_contract (env\<lparr>set_iter := order'\<rparr>)"
    and "same_events s1 s2"
  shows "rel_sum (=) same_events
           (run_orders env item_lookup all_item_ids user start_date days s1)
           (run_orders (env\<lparr>set_iter := order'\<rparr>) item_lookup all_item_ids user start_date days s2)"
  using assms(3)
proof (induction days arbitrary: s1 s2)
  case Nil
  then show ?case by simp
next
  case (Cons d days)
  obtain e1 n g where s1: "s1 = (e1, n, g)" by (cases s1) auto
  obtain e2 where s2: "s2 = (e2, n, g)" and e: "list_all2 same_up_to_set_order e1 e2"
    using Cons.prems unfolding s1 by (cases s2) (auto simp: same_events_def)
  show ?case
    unfolding s1 s2 run_orders.simps prod.case
  proof (rule ebind_rel [OF run_session_rel [OF assms(1,2) e]])
    fix x y :: "Event list \<times> 'a"
    assume xy: "same_events x y"
    have "same_events (fst x, n + 1, snd x) (fst y, n + 1, snd y)"
      using xy by (simp add: same_events_def)
    from Cons.IH [OF this]
    show "rel_sum (=) same_events
            (case x of (events1, g1) \<Rightarrow>
               run_orders env item_lookup all_item_ids user start_date days (events1, n + 1, g1))
            (case y of (events1, g1) \<Rightarrow>
               run_orders (env\<lparr>set_iter := order'\<rparr>) item_lookup all_item_ids user start_date days
                 (events1, n + 1, g1))"
      by (simp add: split_beta)
  qed
qed

lemma run_users_rel:
  assumes "set_iter_contract env" and "set_iter_contract (env\<lparr>set_iter := order'\<rparr>)"
    and "same_events s1 s2"
  shows "rel_sum (=) same_events
           (run_users env item_lookup all_item_ids n_days start_date users s1)
           (run_users (env\<lparr>set_iter := order'\<rparr>) item_lookup all_item_ids n_days start_date users s2)"
  using assms(3)
proof (induction users arbitrary: s1 s2)
  case Nil
  then show ?case by simp
next
  case (Cons u users)
  obtain e1 n g where s1: "s1 = (e1, n, g)" by (cases s1) auto
  obtain e2 where s2: "s2 = (e2, n, g)" and e: "list_all2 same_up_to_set_order e1 e2"
    using Cons.prems unfolding s1 by (cases s2) (auto simp: same_events_def)
  show ?case
    unfolding s1 s2 run_users.simps prod.case np_choice_range_set_iter
  proof (rule ebind_rel_same)
    fix x :: "int list \<times> 'a"
    have "same_events (e1, n, snd x) (e2, n, snd x)"
      using e by (simp add: same_events_def)
    from run_orders_rel [OF assms(1,2) this]
    have "rel_sum (=) same_events
            (run_orders env item_lookup all_item_ids u start_date (sort (fst x)) (e1, n, snd x))
            (run_orders (env\<lparr>set_iter := order'\<rparr>) item_lookup all_item_ids u start_date
               (sort (fst x)) (e2, n, snd x))" .
    then have "rel_sum (=) same_events
            (ebind (run_orders env item_lookup all_item_ids u start_date (sort (fst x)) (e1, n, snd x))
               (run_users env item_lookup all_item_ids n_days start_date users))
            (ebind (run_orders (env\<lparr>set_iter := order'\<rparr>) item_lookup all_item_ids u start_date
                      (sort (fst x)) (e2, n, snd x))
               (run_users (env\<lparr>set_iter := order'\<rparr>) item_lookup all_item_ids n_days start_date users))"
      by (rule ebind_rel) (rule Cons.IH)
    then show "rel_sum (=) same_events
            (case x of (days, g1) \<Rightarrow>
               ebind (run_orders env item_lookup all_item_ids u start_date (sort days) (e1, n, g1))
                 (run_users env item_lookup all_item_ids n_days start_date users))
            (case x of (days, g1) \<Rightarrow>
               ebind (run_orders (env\<lparr>set_iter := order'\<rparr>) item_lookup all_item_ids u start_date
                        (sort days) (e2, n, g1))
                 (run_users (env\<lparr>set_iter := order'\<rparr>) item_lookup all_item_ids n_days
                    start_date users))"
      by (simp add: split_beta)
  qed
qed

lemma set_iter_contract_remdups: "set_iter_contract (tape_runtime remdups)"
  by (simp add: set_iter_contract_def tape_runtime_def)

lemma set_iter_contract_rev_remdups:
  "set_iter_contract ((tape_runtime remdups)\<lparr>set_iter := rev \<circ> remdups\<rparr>)"
  by (simp add: set_iter_contract_def)

text \<open>
  C4, as stated, fails: \<open>cart_categories\<close> and \<open>cart_cuisines\<close> are built with
  \<open>list(set(...))\<close> (lines 639-640), so two runs with the same generator state and
  inputs that iterate string sets in different orders return different event lists.
\<close>

theorem generate_sessions_set_order_counterexample:
  "set_iter_contract (tape_runtime remdups)
   \<and> set_iter_contract ((tape_runtime remdups)\<lparr>set_iter := rev \<circ> remdups\<rparr>)
   \<and> map ev_cart_categories
        (projr (generate_sessions (tape_runtime remdups) [user_1] small_catalog 30 start_2025 tape_1))
       = [[''Main''], [''Main'', ''Side''], [''Main'', ''Side''], [''Main'', ''Side'']]
   \<and> map ev_cart_categories
        (projr (generate_sessions ((tape_runtime remdups)\<lparr>set_iter := rev \<circ> remdups\<rparr>)
                  [user_1] small_catalog 30 start_2025 tape_1))
       = [[''Main''], [''Side'', ''Main''], [''Side'', ''Main''], [''Side'', ''Main'']]
   \<and> generate_sessions (tape_runtime remdups) [user_1] small_catalog 30 start_2025 tape_1
       \<noteq> generate_sessions ((tape_runtime remdups)\<lparr>set_iter := rev \<circ> remdups\<rparr>)
            [user_1] small_catalog 30 start_2025 tape_1"
proof -
  let ?r1 = "generate_sessions (tape_runtime remdups) [user_1] small_catalog 30 start_2025 tape_1"
  let ?r2 = "generate_sessions ((tape_runtime remdups)\<lparr>set_iter := rev \<circ> remdups\<rparr>)
               [user_1] small_catalog 30 start_2025 tape_1"
  have a: "map ev_cart_categories (projr ?r1)
             = [[''Main''], [''Main'', ''Side''], [''Main'', ''Side''], [''Main'', ''Side'']]"
    by code_simp
  have b: "map ev_cart_categories (projr ?r2)
             = [[''Main''], [''Side'', ''Main''], [''Side'', ''Main''], [''Side'', ''Main'']]"
    by code_simp
  have "?r1 \<noteq> ?r2"
  proof
    assume "?r1 = ?r2"
    then have "map ev_cart_categories (projr ?r1) = map ev_cart_categories (projr ?r2)"
      by (rule arg_cong)
    then show False unfolding a b by simp
  qed
  then show ?thesis
    using a b set_iter_contract_remdups set_iter_contract_rev_remdups by (intro conjI)
qed

text \<open>
  C4, amended: two runs with the same generator state, users, catalog, number of days and
  start date, whatever order each iterates its string sets in, fail with the same error or
  return event lists of the same length that agree, position by position, in every field
  except the element order of \<open>cart_categories\<close> and \<open>cart_cuisines\<close>, which hold
  the same sets; when both runs iterate string sets in the same order, the results are
  equal.
\<close>

theorem generate_sessions_same_up_to_set_order:
  assumes "set_iter_contract env" and "set_iter_contract (env\<lparr>set_iter := order'\<rparr>)"
  shows "rel_sum (=) (list_all2 same_up_to_set_order)
           (generate_sessions env users catalog n_days start_date g)
           (generate_sessions (env\<lparr>set_iter := order'\<rparr>) users catalog n_days start_date g)
       \<and> (order' = set_iter env \<longrightarrow>
            generate_sessions (env\<lparr>set_iter := order'\<rparr>) users catalog n_days start_date g
              = generate_sessions env users catalog n_days start_date g)"
proof (rule conjI)
  have "same_events ([], 0::nat, g) ([], 0, g)" by (simp add: same_events_def)
  from run_users_rel [OF assms this]
  have "rel_sum (=) same_events
          (run_users env (item_lookup_of catalog) (all_item_ids_of catalog) n_days start_date users
             ([], 0, g))
          (run_users (env\<lparr>set_iter := order'\<rparr>) (item_lookup_of catalog) (all_item_ids_of catalog)
             n_days start_date users ([], 0, g))" .
  then show "rel_sum (=) (list_all2 same_up_to_set_order)
           (generate_sessions env users catalog n_days start_date g)
           (generate_sessions (env\<lparr>set_iter := order'\<rparr>) users catalog n_days start_date g)"
    unfolding generate_sessions_def
    by (rule ebind_rel) (simp add: same_events_def split_beta)
next
  show "order' = set_iter env \<longrightarrow>
          generate_sessions (env\<lparr>set_iter := order'\<rparr>) users catalog n_days start_date g
            = generate_sessions env users catalog n_days start_date g"
    by simp
qed

theorem generate_sessions_same_up_to_set_order_witness:
  "set_iter_contract (tape_runtime remdups)
   \<and> set_iter_contract ((tape_runtime remdups)\<lparr>set_iter := rev \<circ> remdups\<rparr>)
   \<and> length (projr (generate_sessions (tape_runtime remdups) [user_1] small_catalog 30
                      start_2025 tape_1)) = 4
   \<and> rel_sum (=) (list_all2 same_up_to_set_order)
        (generate_sessions (tape_runtime remdups) [user_1] small_catalog 30 start_2025 tape_1)
        (generate_sessions ((tape_runtime remdups)\<lparr>set_iter := rev \<circ> remdups\<rparr>)
           [user_1] small_catalog 30 start_2025 tape_1)"
proof -
  have n: "length (projr (generate_sessions (tape_runtime remdups) [user_1] small_catalog 30
                      start_2025 tape_1)) = 4" by code_simp
  have r: "rel_sum (=) (list_all2 same_up_to_set_order)
        (generate_sessions (tape_runtime remdups) [user_1] small_catalog 30 start_2025 tape_1)
        (generate_sessions ((tape_runtime remdups)\<lparr>set_iter := rev \<circ> remdups\<rparr>)
           [user_1] small_catalog 30 start_2025 tape_1)"
    by (rule conjunct1 [OF generate_sessions_same_up_to_set_order
                             [OF set_iter_contract_remdups set_iter_contract_rev_remdups]])
  show ?thesis
    by (intro conjI set_iter_contract_remdups set_iter_contract_rev_remdups n r)
qed

end
